theory Spec2Isabelle
  imports Main "HOL-Library.Char_ord" "HOL-Library.List_Lexorder"
begin

section \<open>Text\<close>

text \<open>
  A JavaScript string is a sequence of code units. The model uses \<^typ>\<open>string\<close>, so a
  character is a code unit below 256; the texts of the source that lie outside this range
  (the Chinese notification messages and the content of the default tab) are replaced by
  named constants or constructors.
\<close>

text \<open>The double quote, the backslash, the line feed and the carriage return.\<close>

abbreviation dq :: char where "dq \<equiv> CHR 0x22"
abbreviation bs :: char where "bs \<equiv> CHR 0x5C"
abbreviation nl :: char where "nl \<equiv> CHR 0x0A"
abbreviation cr :: char where "cr \<equiv> CHR 0x0D"

fun digits :: "nat \<Rightarrow> string" where
  "digits n =
     (if n < 10 then [char_of (48 + n)]
      else digits (n div 10) @ [char_of (48 + n mod 10)])"

declare digits.simps [simp del]

text \<open>\<open>String.prototype.trim\<close>: the white space and line terminators of ECMAScript
  among the code units below 256.\<close>

definition isWhiteSpace :: "char \<Rightarrow> bool" where
  "isWhiteSpace c \<longleftrightarrow>
     c = CHR 0x09 \<or> c = nl \<or> c = CHR 0x0B \<or> c = CHR 0x0C \<or> c = CHR 0x0D
     \<or> c = CHR 0x20 \<or> c = CHR 0xA0"

definition trim :: "string \<Rightarrow> string" where
  "trim s = rev (dropWhile isWhiteSpace (rev (dropWhile isWhiteSpace s)))"

text \<open>The number a decimal text stands for.\<close>

definition digitsValue :: "string \<Rightarrow> nat" where
  "digitsValue ds = foldl (\<lambda>a c. 10 * a + (of_char c - 48)) 0 ds"

section \<open>The tab store (useTabStore.ts)\<close>

record TabItem =
  key :: string
  title :: string
  content :: string
  closable :: "bool option"

record TabStore =
  tabs :: "TabItem list"
  activeTabKey :: string
  nextKey :: nat

text \<open>The content of the default tab, a four-character Chinese text in the source
  (``home page content''), written here as its code points.\<close>

definition homeContent :: string where
  "homeContent = ''U+9996 U+9875 U+5185 U+5BB9''"

definition defaultTab :: TabItem where
  "defaultTab =
     \<lparr>key = ''1'', title = ''New Tab 1'', content = homeContent, closable = Some True\<rparr>"

definition initialStore :: TabStore where
  "initialStore = \<lparr>tabs = [defaultTab], activeTabKey = ''1'', nextKey = 2\<rparr>"

definition getTabByKey :: "TabStore \<Rightarrow> string \<Rightarrow> TabItem option" where
  "getTabByKey state k = find (\<lambda>tab. key tab = k) (tabs state)"

text \<open>\<open>addTab\<close>: the new tab's key is the decimal text of \<open>nextKey\<close>; its content is the
  title followed by a Chinese suffix, written here in ASCII.\<close>

definition addTab :: "TabStore \<Rightarrow> TabStore" where
  "addTab state =
     (let newTabKey = digits (nextKey state);
          newTab = \<lparr>key = digits (nextKey state),
                    title = ''New Tab '' @ newTabKey,
                    content = ''New Tab '' @ newTabKey @ '' content'',
                    closable = Some True\<rparr>
      in \<lparr>tabs = tabs state @ [newTab], activeTabKey = newTabKey,
          nextKey = nextKey state + 1\<rparr>)"

text \<open>\<open>closeAllTabs\<close> keeps nothing of the old state.\<close>

definition closeAllTabs :: "TabStore \<Rightarrow> TabStore" where
  "closeAllTabs state = \<lparr>tabs = [defaultTab], activeTabKey = ''1'', nextKey = 2\<rparr>"

text \<open>
  \<open>closeTab\<close>. The expression \<open>updatedTabs[updatedTabs.length - 1]?.key || "1"\<close> is
  \<open>"1"\<close> when the list is empty (the read is \<open>undefined\<close>) and when the key is the empty
  string (which is falsy).
\<close>

definition lastKeyOr1 :: "TabItem list \<Rightarrow> string" where
  "lastKeyOr1 updatedTabs =
     (case rev updatedTabs of
        [] \<Rightarrow> ''1''
      | tab # _ \<Rightarrow> (if key tab = [] then ''1'' else key tab))"

definition closeTab :: "string \<Rightarrow> TabStore \<Rightarrow> TabStore" where
  "closeTab keyToRemove state =
     (if length (tabs state) = 1 then closeAllTabs state
      else
        let updatedTabs = filter (\<lambda>tab. key tab \<noteq> keyToRemove) (tabs state);
            newActiveTab =
              (if keyToRemove = activeTabKey state then lastKeyOr1 updatedTabs
               else activeTabKey state)
        in state\<lparr>tabs := updatedTabs, activeTabKey := newActiveTab\<rparr>)"

definition setActiveTab :: "string \<Rightarrow> TabStore \<Rightarrow> TabStore" where
  "setActiveTab k state = state\<lparr>activeTabKey := k\<rparr>"

text \<open>\<open>renameTab\<close> refuses a blank title.\<close>

definition renameTab :: "string \<Rightarrow> string \<Rightarrow> TabStore \<Rightarrow> TabStore" where
  "renameTab k newTitle state =
     (if trim newTitle = [] then state
      else state\<lparr>tabs :=
             map (\<lambda>tab. if key tab = k then tab\<lparr>title := trim newTitle\<rparr> else tab)
               (tabs state)\<rparr>)"

text \<open>
  \<open>findIndex\<close> is \<open>None\<close> where JavaScript returns -1. Then \<open>slice(-1)\<close> is the last
  element alone and \<open>slice(0, 0)\<close> is empty.
\<close>

fun findIndex :: "('a \<Rightarrow> bool) \<Rightarrow> 'a list \<Rightarrow> nat option" where
  "findIndex P [] = None"
| "findIndex P (x # xs) =
     (if P x then Some 0 else map_option Suc (findIndex P xs))"

definition closeOtherTabs :: "string \<Rightarrow> TabStore \<Rightarrow> TabStore" where
  "closeOtherTabs currentKey state =
     state\<lparr>tabs := (case find (\<lambda>tab. key tab = currentKey) (tabs state) of
                       Some currentTab \<Rightarrow> [currentTab]
                     | None \<Rightarrow> []),
           activeTabKey := currentKey\<rparr>"

definition closeLeftTabs :: "string \<Rightarrow> TabStore \<Rightarrow> TabStore" where
  "closeLeftTabs currentKey state =
     state\<lparr>tabs := (case findIndex (\<lambda>tab. key tab = currentKey) (tabs state) of
                       Some currentIndex \<Rightarrow> drop currentIndex (tabs state)
                     | None \<Rightarrow> drop (length (tabs state) - 1) (tabs state)),
           activeTabKey := currentKey\<rparr>"

definition closeRightTabs :: "string \<Rightarrow> TabStore \<Rightarrow> TabStore" where
  "closeRightTabs currentKey state =
     state\<lparr>tabs := (case findIndex (\<lambda>tab. key tab = currentKey) (tabs state) of
                       Some currentIndex \<Rightarrow> take (currentIndex + 1) (tabs state)
                     | None \<Rightarrow> []),
           activeTabKey := currentKey\<rparr>"

text \<open>
  The operations of the store as the tab bar calls them. The bar closes the other tabs
  or the tabs to the right from the menu of a tab, so the key it passes is the key of a
  tab; \<open>enabled\<close> says so.
\<close>

datatype storeOp =
    AddTab
  | CloseTab string
  | SetActiveTab string
  | RenameTab string string
  | CloseOtherTabs string
  | CloseLeftTabs string
  | CloseRightTabs string
  | CloseAllTabs

fun applyOp :: "TabStore \<Rightarrow> storeOp \<Rightarrow> TabStore" where
  "applyOp state AddTab = addTab state"
| "applyOp state (CloseTab k) = closeTab k state"
| "applyOp state (SetActiveTab k) = setActiveTab k state"
| "applyOp state (RenameTab k t) = renameTab k t state"
| "applyOp state (CloseOtherTabs k) = closeOtherTabs k state"
| "applyOp state (CloseLeftTabs k) = closeLeftTabs k state"
| "applyOp state (CloseRightTabs k) = closeRightTabs k state"
| "applyOp state CloseAllTabs = closeAllTabs state"

text \<open>
  The keys of a store built by the operations above: each is the decimal text of a
  number below \<open>nextKey\<close>, and no two tabs share one.
\<close>

definition keysOf :: "TabStore \<Rightarrow> string list" where
  "keysOf state = map key (tabs state)"

definition wfStore :: "TabStore \<Rightarrow> bool" where
  "wfStore state \<longleftrightarrow>
     tabs state \<noteq> [] \<and> distinct (keysOf state) \<and> [] \<notin> set (keysOf state)"

fun enabled :: "TabStore \<Rightarrow> storeOp \<Rightarrow> bool" where
  "enabled state (CloseOtherTabs k) \<longleftrightarrow> k \<in> set (keysOf state)"
| "enabled state (CloseRightTabs k) \<longleftrightarrow> k \<in> set (keysOf state)"
| "enabled state _ \<longleftrightarrow> True"

fun applyOps :: "TabStore \<Rightarrow> storeOp list \<Rightarrow> TabStore option" where
  "applyOps state [] = Some state"
| "applyOps state (x # xs) =
     (if enabled state x then applyOps (applyOp state x) xs else None)"

definition numberedKeys :: "TabStore \<Rightarrow> bool" where
  "numberedKeys state \<longleftrightarrow>
     list_all (\<lambda>k. digitsValue k < nextKey state \<and> digits (digitsValue k) = k)
       (keysOf state)"

definition storeInv :: "TabStore \<Rightarrow> bool" where
  "storeInv state \<longleftrightarrow> wfStore state \<and> numberedKeys state"

section \<open>JSON values and their serialisation\<close>

text \<open>
  The value \<open>JSON.parse\<close> returns. An object keeps its members in order, so it is an
  association list. Numbers are IEEE doubles in JavaScript; the model leaves the number
  type \<open>'n\<close> open and takes the text of a number from a function \<open>'n \<Rightarrow> string\<close>.
\<close>

datatype 'n json =
    JNull
  | JBool bool
  | JNum 'n
  | JStr string
  | JArr "'n json list"
  | JObj "(string \<times> 'n json) list"

fun join :: "string \<Rightarrow> string list \<Rightarrow> string" where
  "join sep [] = []"
| "join sep [x] = x"
| "join sep (x # y # ys) = x @ sep @ join sep (y # ys)"

text \<open>\<open>JSON.stringify(value, null, space)\<close> of ECMAScript, for the values above.\<close>

definition hexDigit :: "nat \<Rightarrow> char" where
  "hexDigit d = (if d < 10 then char_of (48 + d) else char_of (87 + d))"

definition quoteChar :: "char \<Rightarrow> string" where
  "quoteChar c =
     (if c = dq then [bs, dq]
      else if c = bs then [bs, bs]
      else if c = CHR 0x08 then [bs, CHR ''b'']
      else if c = CHR 0x0C then [bs, CHR ''f'']
      else if c = nl then [bs, CHR ''n'']
      else if c = CHR 0x0D then [bs, CHR ''r'']
      else if c = CHR 0x09 then [bs, CHR ''t'']
      else if (of_char c :: nat) < 32
        then [bs, CHR ''u'', CHR ''0'', CHR ''0'',
              hexDigit (of_char c div 16), hexDigit (of_char c mod 16)]
      else [c])"

definition quoteJSONString :: "string \<Rightarrow> string" where
  "quoteJSONString s = [dq] @ concat (map quoteChar s) @ [dq]"

fun serialize :: "('n \<Rightarrow> string) \<Rightarrow> string \<Rightarrow> string \<Rightarrow> 'n json \<Rightarrow> string" where
  "serialize nt gap ind JNull = ''null''"
| "serialize nt gap ind (JBool b) = (if b then ''true'' else ''false'')"
| "serialize nt gap ind (JNum n) = nt n"
| "serialize nt gap ind (JStr s) = quoteJSONString s"
| "serialize nt gap ind (JArr vs) =
     (if vs = [] then ''[]''
      else
        let partial = map (serialize nt gap (ind @ gap)) vs
        in if gap = [] then ''['' @ join '','' partial @ '']''
           else ''['' @ [nl] @ (ind @ gap) @ join ('','' @ [nl] @ (ind @ gap)) partial
                @ [nl] @ ind @ '']'')"
| "serialize nt gap ind (JObj ms) =
     (if ms = [] then ''{}''
      else
        let partial =
              map (\<lambda>m. quoteJSONString (fst m) @ '':'' @ (if gap = [] then [] else '' '')
                        @ serialize nt gap (ind @ gap) (snd m)) ms
        in if gap = [] then ''{'' @ join '','' partial @ ''}''
           else ''{'' @ [nl] @ (ind @ gap) @ join ('','' @ [nl] @ (ind @ gap)) partial
                @ [nl] @ ind @ ''}'')"

definition JSON_stringify :: "('n \<Rightarrow> string) \<Rightarrow> nat \<Rightarrow> 'n json \<Rightarrow> string" where
  "JSON_stringify nt space v = serialize nt (replicate (min 10 space) CHR '' '') [] v"

text \<open>
  \<open>ToString\<close> of a parsed value: \<open>JSON.parse\<close> applies it to an argument that is not a
  string. An array is its elements joined by commas, \<open>null\<close> elements being empty.
\<close>

fun toStringElem :: "('n \<Rightarrow> string) \<Rightarrow> 'n json \<Rightarrow> string"
  and toString :: "('n \<Rightarrow> string) \<Rightarrow> 'n json \<Rightarrow> string" where
  "toStringElem nt v = (if v = JNull then [] else toString nt v)"
| "toString nt JNull = ''null''"
| "toString nt (JBool b) = (if b then ''true'' else ''false'')"
| "toString nt (JNum n) = nt n"
| "toString nt (JStr s) = s"
| "toString nt (JArr vs) = join '','' (map (toStringElem nt) vs)"
| "toString nt (JObj ms) = ''[object Object]''"

text \<open>The decimal text of an integer, the number text used in the examples.\<close>

definition intText :: "int \<Rightarrow> string" where
  "intText i = (if i < 0 then ''-'' @ digits (nat (- i)) else digits (nat i))"

section \<open>The libraries and the helpers of utils/json\<close>

text \<open>
  \<open>JSON.parse\<close>, \<open>JSON5.parse\<close> and \<open>jsonrepair\<close> are libraries: they are parameters of
  the model. A parser returns the value or the syntax error it throws, with the character
  offset when it reports one; \<open>jsonrepair\<close> returns the repaired text or \<open>None\<close> when it
  throws. \<open>sortIndent\<close> is the indentation width used by \<open>sortJson\<close>, a constant of
  utils/json.
\<close>

record SyntaxError =
  errMessage :: string
  errOffset :: "nat option"

record 'n library =
  JSON_parse :: "string \<Rightarrow> SyntaxError + 'n json"
  JSON5_parse :: "string \<Rightarrow> SyntaxError + 'n json"
  jsonrepair :: "string \<Rightarrow> string option"
  numberText :: "'n \<Rightarrow> string"
  sortIndent :: nat

record JsonErrorInfo =
  message :: string
  line :: int
  column :: int

text \<open>
  Modelled from the spec: the conversion of an offset to a line and a column inside
  \<open>jsonParseError\<close> of utils/json, which is not among the sources. Section 4.1: the
  line and the column are 1-based and found by scanning the newline characters of the text
  up to the offset.
\<close>

definition offsetToLineColumn :: "string \<Rightarrow> nat \<Rightarrow> int \<times> int" where
  "offsetToLineColumn text off =
     (let scanned = take off text;
          lastLine = takeWhile (\<lambda>c. c \<noteq> nl) (rev scanned)
      in (1 + int (length (filter (\<lambda>c. c = nl) scanned)), 1 + int (length lastLine)))"

text \<open>
  Modelled from the spec: the error \<open>jsonParseError\<close> and \<open>json5ParseError\<close> of
  utils/json build, both absent from the sources. Section 4.1: the message of the parser with
  the line and column of its offset; with no offset the line is 0.
\<close>

definition toErrorInfo :: "string \<Rightarrow> SyntaxError \<Rightarrow> JsonErrorInfo" where
  "toErrorInfo text e =
     (case errOffset e of
        None \<Rightarrow> \<lparr>message = errMessage e, line = 0, column = 0\<rparr>
      | Some off \<Rightarrow>
          \<lparr>message = errMessage e, line = fst (offsetToLineColumn text off),
           column = snd (offsetToLineColumn text off)\<rparr>)"

text \<open>
  Modelled from the spec: \<open>jsonParseError\<close> of utils/json, which is not among the
  sources. Section 4.1: a strict parse under the JSON dialect; nothing when the text
  parses, the error otherwise.
\<close>

definition jsonParseError :: "'n library \<Rightarrow> string \<Rightarrow> JsonErrorInfo option" where
  "jsonParseError lib val =
     (case JSON_parse lib val of Inl e \<Rightarrow> Some (toErrorInfo val e) | Inr _ \<Rightarrow> None)"

text \<open>
  Modelled from the spec: \<open>json5ParseError\<close> of utils/json, which is not among the
  sources. Section 4.1: the same under the JSON5 dialect, with its own parser.
\<close>

definition json5ParseError :: "'n library \<Rightarrow> string \<Rightarrow> JsonErrorInfo option" where
  "json5ParseError lib val =
     (case JSON5_parse lib val of Inl e \<Rightarrow> Some (toErrorInfo val e) | Inr _ \<Rightarrow> None)"

text \<open>
  Modelled from the spec: \<open>isArrayOrObject\<close> of utils/json, which is not among the
  sources. Section 4.5: a composite value is an object or an array; scalars are not.
\<close>

fun isArrayOrObject :: "'n json \<Rightarrow> bool" where
  "isArrayOrObject (JArr _) = True"
| "isArrayOrObject (JObj _) = True"
| "isArrayOrObject _ = False"

datatype SortOrder = Asc | Desc

text \<open>
  Modelled from the spec: the walk inside \<open>sortJson\<close> of utils/json, which is not among
  the sources. Section 4.3: the keys of every object are sorted by code-point order of the
  key strings, ascending or descending, at every nesting level; arrays keep the order of
  their elements, which are sorted inside; scalars are unchanged.
\<close>

primrec sortKeys :: "SortOrder \<Rightarrow> 'n json \<Rightarrow> 'n json" where
  "sortKeys ord JNull = JNull"
| "sortKeys ord (JBool b) = JBool b"
| "sortKeys ord (JNum n) = JNum n"
| "sortKeys ord (JStr s) = JStr s"
| "sortKeys ord (JArr vs) = JArr (map (sortKeys ord) vs)"
| "sortKeys ord (JObj ms) =
     JObj ((case ord of Asc \<Rightarrow> (\<lambda>xs. xs) | Desc \<Rightarrow> rev)
            (sort_key fst (map (map_prod (\<lambda>k. k) (sortKeys ord)) ms)))"

text \<open>
  Modelled from the spec: \<open>sortJson\<close> of utils/json, which is not among the sources.
  Section 4.3: the result is the pretty-printed text of the sorted value; the width of the
  indentation is a choice of presentation, \<open>sortIndent\<close> here.
\<close>

definition sortJson :: "'n library \<Rightarrow> 'n json \<Rightarrow> SortOrder \<Rightarrow> string" where
  "sortJson lib v ord = JSON_stringify (numberText lib) (sortIndent lib) (sortKeys ord v)"

text \<open>Where the scan of a text with comments is: in the JSON text proper, in a string
  literal, in a line comment or in a block comment.\<close>

datatype scanMode = Code | InString | LineComment | BlockComment

text \<open>
  Modelled from the spec: the scan inside \<open>removeJsonComments\<close> of utils/json, which is
  not among the sources. Section 4.4: the scan tracks the quote state and the escape
  sequences; outside a string literal \<open>//\<close> opens a comment that runs to the end of the
  line and \<open>/*\<close> one that runs to the next \<open>*/\<close>; the comments are removed, the line
  terminator and everything else is kept.
\<close>

fun scan :: "scanMode \<Rightarrow> string \<Rightarrow> string" where
  "scan m [] = []"
| "scan Code (c # cs) =
     (if c = CHR ''/'' then
        (case cs of
           [] \<Rightarrow> [c]
         | d # ds \<Rightarrow>
             if d = CHR ''/'' then scan LineComment ds
             else if d = CHR ''*'' then scan BlockComment ds
             else c # scan Code cs)
      else if c = dq then c # scan InString cs
      else c # scan Code cs)"
| "scan InString (c # cs) =
     (if c = bs then
        (case cs of [] \<Rightarrow> [c] | d # ds \<Rightarrow> c # d # scan InString ds)
      else if c = dq then c # scan Code cs
      else c # scan InString cs)"
| "scan LineComment (c # cs) =
     (if c = nl then c # scan Code cs else scan LineComment cs)"
| "scan BlockComment (c # cs) =
     (if c = CHR ''*'' then
        (case cs of
           [] \<Rightarrow> []
         | d # ds \<Rightarrow> if d = CHR ''/'' then scan Code ds else scan BlockComment cs)
      else scan BlockComment cs)"

text \<open>
  Modelled from the spec: \<open>removeJsonComments\<close> of utils/json, which is not among the
  sources. Section 4.4: the text without its comments, scanned from outside any string.
\<close>

definition removeJsonComments :: "string \<Rightarrow> string" where
  "removeJsonComments text = scan Code text"

text \<open>The mode in which a second scan of the output continues.\<close>

fun resume :: "scanMode \<Rightarrow> scanMode" where
  "resume Code = Code"
| "resume InString = InString"
| "resume LineComment = Code"
| "resume BlockComment = Code"

section \<open>The editor component (MonacoJsonEditor)\<close>

text \<open>
  The notifications. The source's messages are Chinese texts; each is a constructor here:
  \<open>NoContent\<close> (no content yet), \<open>RepairSucceeded\<close>, \<open>RepairFailed\<close> (may not be valid
  JSON data), \<open>LocateFailed\<close>, \<open>LocateSucceeded\<close>, \<open>NoData\<close> (no data yet),
  \<open>NotJsonData\<close> (not valid JSON data, cannot decode), \<open>NotEscapedJson\<close> (not a valid
  escaped JSON string, cannot decode).
\<close>

datatype message =
    NoContent
  | RepairSucceeded
  | RepairFailed
  | LocateFailed
  | LocateSucceeded
  | NoData
  | NotJsonData
  | NotEscapedJson

datatype toast = ToastSuccess message | ToastError message | ToastWarning message

text \<open>What a pending timer does when it fires.\<close>

datatype task = ValidateTask string | ClearDecorationsTask

text \<open>
  The end of line of a text model of the editor. The model holds its text with one kind
  of line end: \<open>normalizeEOL\<close> turns every line break of a text (CR LF, CR or LF) into
  it. A new model takes the kind most of the line breaks of its first text have, and the
  default of the platform when the text has none.
\<close>

datatype eol = LF | CRLF

fun eolText :: "eol \<Rightarrow> string" where
  "eolText LF = [nl]"
| "eolText CRLF = [cr, nl]"

fun normalizeEOL :: "eol \<Rightarrow> string \<Rightarrow> string" where
  "normalizeEOL e [] = []"
| "normalizeEOL e (c # cs) =
     (if c = cr then
        (case cs of
           [] \<Rightarrow> eolText e
         | d # ds \<Rightarrow>
             if d = nl then eolText e @ normalizeEOL e ds
             else eolText e @ normalizeEOL e cs)
      else if c = nl then eolText e @ normalizeEOL e cs
      else c # normalizeEOL e cs)"

text \<open>The numbers of lone CR, of lone LF and of CR LF in a text.\<close>

fun countEOL :: "string \<Rightarrow> nat \<times> nat \<times> nat" where
  "countEOL [] = (0, 0, 0)"
| "countEOL (c # cs) =
     (if c = cr then
        (case cs of
           [] \<Rightarrow> (1, 0, 0)
         | d # ds \<Rightarrow>
             if d = nl then (case countEOL ds of (crs, lfs, crlfs) \<Rightarrow> (crs, lfs, crlfs + 1))
             else (case countEOL cs of (crs, lfs, crlfs) \<Rightarrow> (crs + 1, lfs, crlfs)))
      else if c = nl then (case countEOL cs of (crs, lfs, crlfs) \<Rightarrow> (crs, lfs + 1, crlfs))
      else countEOL cs)"

definition detectEOL :: "eol \<Rightarrow> string \<Rightarrow> eol" where
  "detectEOL defaultEOL text =
     (case countEOL text of
        (crs, lfs, crlfs) \<Rightarrow>
          if crs + lfs + crlfs = 0 then defaultEOL
          else if crs + lfs + crlfs < 2 * (crs + crlfs) then CRLF
          else LF)"

text \<open>
  The state the component's functions read and write. \<open>mounted\<close> says that
  \<open>editorRef.current\<close> is set. \<open>modelText\<close>, \<open>modelEOL\<close>, \<open>modelLanguage\<close>, the undo
  history and \<open>revealedLine\<close> belong to the Monaco editor and its text model (the editor
  is created with a model and is only ever given one, so the model is there whenever the
  editor is). The undo history is \<open>undoStack\<close>, the texts to which the steps of the history
  lead back, the latest first, and \<open>undoOpen\<close>, which says that the latest step is still
  open: an edit made with no undo stop before it joins that step. \<open>errorDecorationsRef\<close>
  is the collection of decorations the component holds, with the lines it was created on;
  where the editor draws them after later edits is the editor's. \<open>timers\<close> are the pending
  \<open>setTimeout\<close> calls, each with its handle and due time, and \<open>clock\<close> is the current time
  in milliseconds. \<open>toasts\<close> and \<open>updatedValues\<close> record the notifications shown and the
  texts passed to \<open>onUpdateValue\<close>.
\<close>

record editorState =
  mounted :: bool
  modelText :: string
  modelEOL :: eol
  undoStack :: "string list"
  undoOpen :: bool
  modelLanguage :: string
  revealedLine :: "int option"
  parseJsonError :: "JsonErrorInfo option"
  jsonErrorDetailsModel :: bool
  errorDecorationsRef :: "int list option"
  parseJsonErrorTimeoutRef :: "nat option"
  timers :: "(nat \<times> nat \<times> task) list"
  nextTimerId :: nat
  clock :: nat
  toasts :: "toast list"
  updatedValues :: "string list"

text \<open>The component before the editor is created, and \<open>initializeEditor\<close>, which
  creates it with \<open>value || ""\<close> and \<open>language || "json"\<close>, on a platform with the
  default end of line \<open>defaultEOL\<close>. The history of the new model is empty.\<close>

definition unmounted :: editorState where
  "unmounted =
     \<lparr>mounted = False, modelText = [], modelEOL = LF, undoStack = [], undoOpen = False,
      modelLanguage = [],
      revealedLine = None, parseJsonError = None, jsonErrorDetailsModel = False,
      errorDecorationsRef = None, parseJsonErrorTimeoutRef = None, timers = [],
      nextTimerId = 1, clock = 0, toasts = [], updatedValues = []\<rparr>"

definition initializeEditor ::
    "eol \<Rightarrow> string option \<Rightarrow> string option \<Rightarrow> editorState \<Rightarrow> editorState" where
  "initializeEditor defaultEOL val language s =
     (if mounted s then s
      else
        let text = (case val of None \<Rightarrow> [] | Some v \<Rightarrow> v);
            e = detectEOL defaultEOL text
        in s\<lparr>mounted := True,
             modelText := normalizeEOL e text,
             modelEOL := e,
             undoStack := [],
             undoOpen := False,
             modelLanguage :=
               (case language of None \<Rightarrow> ''json''
                | Some l \<Rightarrow> if l = [] then ''json'' else l)\<rparr>)"

text \<open>\<open>setTimeout\<close> and \<open>clearTimeout\<close>. Handles are positive numbers, so a handle
  that is set is truthy.\<close>

definition setTimeout :: "task \<Rightarrow> nat \<Rightarrow> editorState \<Rightarrow> nat \<times> editorState" where
  "setTimeout k delay s =
     (nextTimerId s,
      s\<lparr>timers := timers s @ [(nextTimerId s, clock s + delay, k)],
        nextTimerId := nextTimerId s + 1\<rparr>)"

definition clearTimeout :: "nat \<Rightarrow> editorState \<Rightarrow> editorState" where
  "clearTimeout h s = s\<lparr>timers := filter (\<lambda>t. fst t \<noteq> h) (timers s)\<rparr>"

text \<open>
  The listener registered with \<open>onDidChangeModelContent\<close>. It reads the text and the
  language of the model; on a json or json5 model it cancels the pending validation and
  schedules one of the text it read, 1000 ms later; then it calls \<open>onUpdateValue\<close>.
\<close>

definition onDidChangeModelContent :: "editorState \<Rightarrow> editorState" where
  "onDidChangeModelContent s =
     (let val = modelText s;
          languageId = (if mounted s then Some (modelLanguage s) else None);
          s1 = (if languageId = Some ''json'' \<or> languageId = Some ''json5'' then
                  let s2 = (case parseJsonErrorTimeoutRef s of
                              None \<Rightarrow> s
                            | Some h \<Rightarrow> clearTimeout h s);
                      r = setTimeout (ValidateTask val) 1000 s2
                  in (snd r)\<lparr>parseJsonErrorTimeoutRef := Some (fst r)\<rparr>
                else s)
      in s1\<lparr>updatedValues := updatedValues s1 @ [val]\<rparr>)"

text \<open>
  The editor's side of the boundary. An edit lands in the undo history: it joins the
  latest step when that step is open, and opens a new step, which leads back to the text
  before the edit, otherwise. \<open>pushUndoStop\<close> closes the latest step; nothing in the
  sources calls it.
\<close>

definition recordEdit :: "editorState \<Rightarrow> editorState" where
  "recordEdit s =
     (if undoOpen s \<and> undoStack s \<noteq> [] then s
      else s\<lparr>undoStack := modelText s # undoStack s, undoOpen := True\<rparr>)"

definition pushUndoStop :: "editorState \<Rightarrow> editorState" where
  "pushUndoStop s = s\<lparr>undoOpen := False\<rparr>"

text \<open>
  The text of the model is replaced and the listener is told, unless the old and the new
  text are both empty: then nothing has changed and the editor reports nothing.
\<close>

definition replaceText :: "string \<Rightarrow> editorState \<Rightarrow> editorState" where
  "replaceText text s =
     (if modelText s = [] \<and> text = [] then s
      else onDidChangeModelContent (s\<lparr>modelText := text\<rparr>))"

text \<open>
  \<open>executeEdits\<close> with one edit over the full range of the model, as \<open>setEditorValue\<close>
  calls it: the edit lands in the history with no undo stop and the whole text is replaced
  by the new one, with the line ends of the model. \<open>undo\<close> takes back the latest step of
  the history, all its edits at once, and leaves the history closed.
\<close>

definition executeEdits :: "string \<Rightarrow> editorState \<Rightarrow> editorState" where
  "executeEdits text s = replaceText (normalizeEOL (modelEOL s) text) (recordEdit s)"

definition undo :: "editorState \<Rightarrow> editorState" where
  "undo s =
     (if \<not> mounted s then s
      else case undoStack s of
             [] \<Rightarrow> s
           | t # ts \<Rightarrow> replaceText t (s\<lparr>undoStack := ts, undoOpen := False\<rparr>))"

definition setEditorValue :: "string \<Rightarrow> editorState \<Rightarrow> editorState" where
  "setEditorValue jsonText s = (if \<not> mounted s then s else executeEdits jsonText s)"

text \<open>\<open>editorRef.current?.getValue() || ""\<close>.\<close>

definition getValueOrEmpty :: "editorState \<Rightarrow> string" where
  "getValueOrEmpty s = (if mounted s then modelText s else [])"

definition editorValueValidate :: "'n library \<Rightarrow> string \<Rightarrow> editorState \<Rightarrow> bool \<times> editorState" where
  "editorValueValidate lib val s =
     (if trim val = [] then (True, s\<lparr>parseJsonError := None\<rparr>)
      else
        let languageId = (if mounted s then Some (modelLanguage s) else None);
            jsonErr = (if languageId = Some ''json5'' then json5ParseError lib val
                       else jsonParseError lib val)
        in case jsonErr of
             Some e \<Rightarrow> (False, s\<lparr>parseJsonError := Some e\<rparr>)
           | None \<Rightarrow> (True, s\<lparr>parseJsonError := None\<rparr>))"

definition highlightErrorLine :: "int \<Rightarrow> editorState \<Rightarrow> bool \<times> editorState" where
  "highlightErrorLine lineNumber s =
     (if \<not> mounted s then (False, s)
      else
        let s1 = s\<lparr>revealedLine := Some lineNumber\<rparr>;
            s2 = (case errorDecorationsRef s1 of
                    None \<Rightarrow> s1
                  | Some _ \<Rightarrow> s1\<lparr>errorDecorationsRef := Some []\<rparr>);
            s3 = s2\<lparr>errorDecorationsRef := Some [lineNumber]\<rparr>
        in (True, snd (setTimeout ClearDecorationsTask 5000 s3)))"

definition toast :: "toast \<Rightarrow> editorState \<Rightarrow> editorState" where
  "toast t s = s\<lparr>toasts := toasts s @ [t]\<rparr>"

definition goToErrorLine :: "editorState \<Rightarrow> editorState" where
  "goToErrorLine s =
     (case parseJsonError s of
        None \<Rightarrow> toast (ToastError LocateFailed) s
      | Some e \<Rightarrow>
          if line e \<le> 0 then toast (ToastError LocateFailed) s
          else
            let s1 = s\<lparr>jsonErrorDetailsModel := False\<rparr>;
                s2 = snd (highlightErrorLine (line e) s1)
            in toast (ToastSuccess LocateSucceeded) s2)"

definition autoFix :: "'n library \<Rightarrow> editorState \<Rightarrow> bool \<times> editorState" where
  "autoFix lib s =
     (let jsonText = getValueOrEmpty s
      in if jsonText = [] then (False, toast (ToastWarning NoContent) s)
         else case jsonrepair lib jsonText of
                None \<Rightarrow> (False, toast (ToastError RepairFailed) s)
              | Some repaired \<Rightarrow>
                  let s1 = setEditorValue repaired s;
                      s2 = s1\<lparr>jsonErrorDetailsModel := False\<rparr>;
                      s3 = s2\<lparr>parseJsonError := None\<rparr>
                  in (True, toast (ToastSuccess RepairSucceeded) s3))"

text \<open>
  \<open>formatModelByUnEscapeJson\<close> returns a message, the empty one when all went well:
  \<open>None\<close> here. \<open>JSON.parse\<close> throws nothing but a \<open>SyntaxError\<close>, so the last
  \<open>return\<close> of the \<open>catch\<close> block is never reached.
\<close>

definition formatModelByUnEscapeJson ::
    "'n library \<Rightarrow> string \<Rightarrow> editorState \<Rightarrow> message option \<times> editorState" where
  "formatModelByUnEscapeJson lib jsonText s =
     (if jsonText = [] then (Some NoData, s)
      else
        let jsonStr = [dq] @ jsonText @ [dq]
        in case JSON_parse lib jsonStr of
             Inl _ \<Rightarrow> (Some NotEscapedJson, s)
           | Inr unescapedJson \<Rightarrow>
               (case JSON_parse lib (toString (numberText lib) unescapedJson) of
                  Inl _ \<Rightarrow> (Some NotEscapedJson, s)
                | Inr unescapedJsonObject \<Rightarrow>
                    if \<not> isArrayOrObject unescapedJsonObject then (Some NotJsonData, s)
                    else (None,
                          setEditorValue
                            (JSON_stringify (numberText lib) 4 unescapedJsonObject) s)))"

datatype moreKey = Unescape | DelComment

definition moreAction :: "'n library \<Rightarrow> moreKey \<Rightarrow> editorState \<Rightarrow> bool \<times> editorState" where
  "moreAction lib k s =
     (if \<not> mounted s then (False, s)
      else
        let val = modelText s
        in case k of
             Unescape \<Rightarrow>
               (case formatModelByUnEscapeJson lib val s of
                  (Some errorMsg, s1) \<Rightarrow> (False, toast (ToastError errorMsg) s1)
                | (None, s1) \<Rightarrow> (True, s1))
           | DelComment \<Rightarrow> (True, setEditorValue (removeJsonComments val) s))"

text \<open>\<open>fieldSort\<close> does not catch what \<open>JSON.parse\<close> throws: \<open>Inl\<close> is the exception,
  with the state at that point.\<close>

definition fieldSort ::
    "'n library \<Rightarrow> SortOrder \<Rightarrow> editorState \<Rightarrow> (SyntaxError + bool) \<times> editorState" where
  "fieldSort lib type s =
     (if \<not> mounted s then (Inr False, s)
      else
        let val = modelText s;
            r = editorValueValidate lib val s
        in if \<not> fst r then (Inr False, snd r)
           else case JSON_parse lib val of
                  Inl e \<Rightarrow> (Inl e, snd r)
                | Inr jsonObj \<Rightarrow>
                    (Inr True, setEditorValue (sortJson lib jsonObj type) (snd r)))"

text \<open>\<open>clear\<close> and \<open>validate\<close> of the operation bar.\<close>

definition clear :: "editorState \<Rightarrow> bool \<times> editorState" where
  "clear s = (if mounted s then (True, setEditorValue [] s) else (False, s))"

definition validate :: "'n library \<Rightarrow> editorState \<Rightarrow> bool \<times> editorState" where
  "validate lib s =
     (if \<not> mounted s then (False, s)
      else
        let val = modelText s
        in if trim val = [] then (True, s) else editorValueValidate lib val s)"

section \<open>Timers and events\<close>

text \<open>
  What a timer does when it fires, and the passing of time: \<open>advance\<close> moves the clock to
  \<open>t\<close> and runs the timers that are due, in the order of their due times. Every callback
  runs to its end before the next one starts, as the event loop has one thread.
\<close>

definition runTask :: "'n library \<Rightarrow> task \<Rightarrow> editorState \<Rightarrow> editorState" where
  "runTask lib k s =
     (case k of
        ValidateTask val \<Rightarrow> snd (editorValueValidate lib val s)
      | ClearDecorationsTask \<Rightarrow>
          (case errorDecorationsRef s of
             None \<Rightarrow> s
           | Some _ \<Rightarrow> s\<lparr>errorDecorationsRef := Some []\<rparr>))"

definition dueTimers :: "nat \<Rightarrow> editorState \<Rightarrow> (nat \<times> nat \<times> task) list" where
  "dueTimers t s = sort_key (\<lambda>x. fst (snd x)) (filter (\<lambda>x. fst (snd x) \<le> t) (timers s))"

definition advance :: "'n library \<Rightarrow> nat \<Rightarrow> editorState \<Rightarrow> editorState" where
  "advance lib t s =
     foldl (\<lambda>s' x. runTask lib (snd (snd x)) s')
       (s\<lparr>timers := filter (\<lambda>x. \<not> fst (snd x) \<le> t) (timers s), clock := max (clock s) t\<rparr>)
       (dueTimers t s)"

text \<open>
  An event is a change of the content by the user, which the editor reports to the
  listener, an undo stop, which the editor pushes as it sees fit while the user types, or
  the passing of time. \<open>Edit val\<close> is the change after which the model holds \<open>val\<close>; it
  lands in the history like any edit.
\<close>

datatype event = Edit string | UndoStop | Advance nat

definition contentChange :: "string \<Rightarrow> editorState \<Rightarrow> editorState" where
  "contentChange val s = onDidChangeModelContent ((recordEdit s)\<lparr>modelText := val\<rparr>)"

fun step :: "'n library \<Rightarrow> editorState \<Rightarrow> event \<Rightarrow> editorState" where
  "step lib s (Edit val) = (if mounted s then contentChange val s else s)"
| "step lib s UndoStop = (if mounted s then pushUndoStop s else s)"
| "step lib s (Advance t) = advance lib t s"


text \<open>The validations that are pending, each with its due time and its text, and the
  texts validated when the clock moves to \<open>t\<close>.\<close>

fun validationOf :: "nat \<times> nat \<times> task \<Rightarrow> (nat \<times> string) option" where
  "validationOf (h, due, ValidateTask val) = Some (due, val)"
| "validationOf (h, due, ClearDecorationsTask) = None"

definition pendingValidations :: "editorState \<Rightarrow> (nat \<times> string) list" where
  "pendingValidations s = List.map_filter validationOf (timers s)"


text \<open>At most one validation is pending, and it is the one the component holds the
  handle of.\<close>

definition debounceInv :: "editorState \<Rightarrow> bool" where
  "debounceInv s \<longleftrightarrow>
     length (pendingValidations s) \<le> 1
     \<and> (\<forall>x \<in> set (timers s).
          validationOf x \<noteq> None \<longrightarrow> parseJsonErrorTimeoutRef s = Some (fst x))"

definition jsonBuffer :: "editorState \<Rightarrow> bool" where
  "jsonBuffer s \<longleftrightarrow>
     mounted s \<and> (modelLanguage s = ''json'' \<or> modelLanguage s = ''json5'')"

text \<open>
  What the user and the clock do to the component: the editor is created, an event
  happens, or one of the operations is called from the error bar or the operation bar.
  \<open>reach\<close> is the state after a sequence of these, from the component as it starts.
\<close>

datatype action =
    Mount eol "string option" "string option"
  | Happen event
  | AutoFix
  | GoToErrorLine
  | MoreAction moreKey
  | FieldSort SortOrder
  | Clear
  | Validate

fun perform :: "'n library \<Rightarrow> editorState \<Rightarrow> action \<Rightarrow> editorState" where
  "perform lib s (Mount e val language) = initializeEditor e val language s"
| "perform lib s (Happen e) = step lib s e"
| "perform lib s AutoFix = snd (autoFix lib s)"
| "perform lib s GoToErrorLine = goToErrorLine s"
| "perform lib s (MoreAction k) = snd (moreAction lib k s)"
| "perform lib s (FieldSort type) = snd (fieldSort lib type s)"
| "perform lib s Clear = snd (clear s)"
| "perform lib s Validate = snd (validate lib s)"

definition reach :: "'n library \<Rightarrow> action list \<Rightarrow> editorState" where
  "reach lib as = foldl (perform lib) unmounted as"

text \<open>Without an editor there is neither a parse error nor a timer.\<close>

definition errorInv :: "editorState \<Rightarrow> bool" where
  "errorInv s \<longleftrightarrow> mounted s \<or> (parseJsonError s = None \<and> timers s = [])"

text \<open>A parser that knows finitely many texts and rejects the others, to run the
  component on examples.\<close>

definition tableParser :: "(string \<times> int json) list \<Rightarrow> string \<Rightarrow> SyntaxError + int json" where
  "tableParser table text =
     (case map_of table text of
        Some v \<Rightarrow> Inr v
      | None \<Rightarrow> Inl \<lparr>errMessage = ''Unexpected token'', errOffset = Some 0\<rparr>)"

definition tableLibrary :: "(string \<times> int json) list \<Rightarrow> (string \<times> string) list \<Rightarrow> int library" where
  "tableLibrary table repairs =
     \<lparr>JSON_parse = tableParser table, JSON5_parse = tableParser table,
      jsonrepair = map_of repairs, numberText = intText, sortIndent = 4\<rparr>"

section \<open>The operations as the spec words them, and examples\<close>

text \<open>
  The unescape operation in the words of section 4.5 of the spec: the text, wrapped as a
  JSON string literal, is parsed once; the unescaped result is parsed again; the result
  stands if it is an object or an array.
\<close>

definition unescape_spec :: "'n library \<Rightarrow> string \<Rightarrow> 'n json option" where
  "unescape_spec lib t =
     (case JSON_parse lib ([dq] @ t @ [dq]) of
        Inl _ \<Rightarrow> None
      | Inr u \<Rightarrow>
          (case JSON_parse lib (toString (numberText lib) u) of
             Inl _ \<Rightarrow> None
           | Inr v \<Rightarrow> if isArrayOrObject v then Some v else None))"

text \<open>Example texts: an escaped array and what it unescapes to, the object of the
  sorting scenario, a text that needs repair and its repair, and a library that knows
  them.\<close>

definition escapedArray :: string where
  "escapedArray = ''[1,'' @ [bs, dq] @ ''a'' @ [bs, dq] @ '']''"

definition unescapedArray :: string where
  "unescapedArray = ''[1,'' @ [dq] @ ''a'' @ [dq] @ '']''"

definition exampleObject :: string where
  "exampleObject = ''{'' @ [dq] @ ''b'' @ [dq] @ '':1,'' @ [dq] @ ''a'' @ [dq] @ '':2}''"

definition brokenObject :: string where
  "brokenObject = ''{a:1,}''"

definition repairedObject :: string where
  "repairedObject = ''{'' @ [dq] @ ''a'' @ [dq] @ '':1}''"

definition exampleLibrary :: "int library" where
  "exampleLibrary =
     tableLibrary
       [([dq] @ escapedArray @ [dq], JStr unescapedArray),
        (unescapedArray, JArr [JNum 1, JStr ''a'']),
        ([dq] @ ''1'' @ [dq], JStr ''1''),
        (''1'', JNum 1),
        (exampleObject, JObj [(''b'', JNum 1), (''a'', JNum 2)]),
        (''{}'', JObj [])]
       [(brokenObject, repairedObject)]"

text \<open>The pretty-printed text of an object with two members, indented by \<open>gap\<close>.\<close>

definition prettyObject :: "string \<Rightarrow> string \<Rightarrow> string \<Rightarrow> string \<Rightarrow> string \<Rightarrow> string" where
  "prettyObject gap k1 v1 k2 v2 =
     ''{'' @ [nl] @ gap @ [dq] @ k1 @ [dq] @ '': '' @ v1 @ '','' @ [nl]
           @ gap @ [dq] @ k2 @ [dq] @ '': '' @ v2 @ [nl] @ ''}''"

text \<open>An editor mounted on a text, in the language json, on a platform where the line
  end is LF.\<close>

definition editorOn :: "string \<Rightarrow> editorState" where
  "editorOn text = initializeEditor LF (Some text) None unmounted"

text \<open>The same editor, on a text that does not parse, with a parse error recorded at a
  line.\<close>

definition errorAt :: "int \<Rightarrow> editorState" where
  "errorAt l =
     (editorOn ''{'')
       \<lparr>parseJsonError := Some \<lparr>message = ''Unexpected token'', line = l, column = 0\<rparr>\<rparr>"

section \<open>Properties of the tab store\<close>

lemma digits_nonempty: "digits n \<noteq> []"
  by (subst digits.simps) simp

lemma lastKeyOr1_last:
  "ts \<noteq> [] \<Longrightarrow> key (last ts) \<noteq> [] \<Longrightarrow> lastKeyOr1 ts = key (last ts)"
  by (cases ts rule: rev_cases) (simp_all add: lastKeyOr1_def)

lemma filter_key_length:
  "distinct (map key ts) \<Longrightarrow> k \<in> set (map key ts) \<Longrightarrow>
   length (filter (\<lambda>tab. key tab \<noteq> k) ts) = length ts - 1"
proof (induction ts)
  case Nil
  then show ?case by simp
next
  case (Cons t ts)
  show ?case
  proof (cases "key t = k")
    case True
    with Cons.prems have "k \<notin> key ` set ts" by auto
    then have "filter (\<lambda>tab. key tab \<noteq> k) ts = ts"
      by (auto simp: filter_id_conv)
    with True show ?thesis by simp
  next
    case False
    with Cons.prems have k: "k \<in> set (map key ts)" and d: "distinct (map key ts)"
      by auto
    from k have "ts \<noteq> []" by auto
    then have "0 < length ts" by simp
    with Cons.IH [OF d k] False show ?thesis by simp
  qed
qed

lemma filter_key_nonempty:
  assumes "distinct (map key ts)" and "2 \<le> length ts"
  shows "filter (\<lambda>tab. key tab \<noteq> k) ts \<noteq> []"
proof (cases "k \<in> set (map key ts)")
  case True
  from filter_key_length [OF assms(1) True] assms(2)
  have "0 < length (filter (\<lambda>tab. key tab \<noteq> k) ts)" by simp
  then show ?thesis by auto
next
  case False
  then have "filter (\<lambda>tab. key tab \<noteq> k) ts = ts"
    by (auto simp: filter_id_conv)
  with assms(2) show ?thesis by auto
qed

subsection \<open>The stores the operations build\<close>

lemma digitsValue_digits: "digitsValue (digits n) = n"
proof (induction n rule: digits.induct)
  case (1 n)
  show ?case
  proof (cases "n < 10")
    case True
    then have "digits n = [char_of (48 + n)]" by (subst digits.simps) simp
    with True show ?thesis by (simp add: digitsValue_def)
  next
    case False
    then have d: "digits n = digits (n div 10) @ [char_of (48 + n mod 10)]"
      by (subst digits.simps) simp
    have "(48 + n mod 10) mod 256 = 48 + n mod 10" by simp
    then have c: "of_char (char_of (48 + n mod 10)) = 48 + n mod 10" by simp
    from "1.IH" [OF False] have "digitsValue (digits (n div 10)) = n div 10" .
    then show ?thesis
      unfolding d by (simp add: digitsValue_def c)
  qed
qed

lemma storeInv_initialStore: "storeInv initialStore"
proof -
  have "digitsValue ''1'' = 1" by (simp add: digitsValue_def)
  moreover have "digits 1 = ''1''" by code_simp
  ultimately show ?thesis
    by (simp add: storeInv_def wfStore_def numberedKeys_def keysOf_def initialStore_def
        defaultTab_def)
qed

lemma storeInv_sub:
  assumes "storeInv s" and "tabs s' \<noteq> []" and "distinct (map key (tabs s'))"
    and "set (tabs s') \<subseteq> set (tabs s)" and "nextKey s' = nextKey s"
  shows "storeInv s'"
proof -
  from assms(4) have sub: "set (keysOf s') \<subseteq> set (keysOf s)"
    by (auto simp: keysOf_def)
  from assms(1) have "[] \<notin> set (keysOf s)"
    and n: "\<forall>k \<in> set (keysOf s). digitsValue k < nextKey s \<and> digits (digitsValue k) = k"
    by (simp_all add: storeInv_def wfStore_def numberedKeys_def list_all_iff)
  with sub have "[] \<notin> set (keysOf s')"
    and "\<forall>k \<in> set (keysOf s'). digitsValue k < nextKey s' \<and> digits (digitsValue k) = k"
    using assms(5) by auto
  with assms(2,3) show ?thesis
    by (simp add: storeInv_def wfStore_def numberedKeys_def list_all_iff keysOf_def)
qed

lemma storeInv_addTab:
  assumes "storeInv s"
  shows "storeInv (addTab s)"
proof -
  let ?k = "digits (nextKey s)"
  from assms have ne: "tabs s \<noteq> []" and d: "distinct (keysOf s)"
    and e: "[] \<notin> set (keysOf s)"
    and n: "\<forall>k \<in> set (keysOf s). digitsValue k < nextKey s \<and> digits (digitsValue k) = k"
    by (simp_all add: storeInv_def wfStore_def numberedKeys_def list_all_iff)
  have fresh: "?k \<notin> set (keysOf s)"
  proof
    assume "?k \<in> set (keysOf s)"
    with n have "digitsValue ?k < nextKey s" by blast
    then show False by (simp add: digitsValue_digits)
  qed
  have keys: "keysOf (addTab s) = keysOf s @ [?k]"
    by (simp add: keysOf_def addTab_def Let_def)
  have nk: "nextKey (addTab s) = nextKey s + 1"
    by (simp add: addTab_def Let_def)
  have t: "tabs (addTab s) \<noteq> []" by (simp add: addTab_def Let_def)
  from n have "\<forall>k \<in> set (keysOf (addTab s)).
      digitsValue k < nextKey (addTab s) \<and> digits (digitsValue k) = k"
    unfolding keys nk by (auto simp: digitsValue_digits less_Suc_eq)
  moreover from d fresh have "distinct (keysOf (addTab s))" unfolding keys by simp
  moreover from e have "[] \<notin> set (keysOf (addTab s))"
    unfolding keys by (simp add: digits_nonempty [symmetric])
  ultimately show ?thesis using t
    by (simp add: storeInv_def wfStore_def numberedKeys_def list_all_iff)
qed

lemma storeInv_closeTab:
  assumes "storeInv s"
  shows "storeInv (closeTab k s)"
proof (cases "length (tabs s) = 1")
  case True
  then show ?thesis
    using storeInv_initialStore
    by (simp add: closeTab_def closeAllTabs_def initialStore_def)
next
  case False
  from assms have ne: "tabs s \<noteq> []" and d: "distinct (map key (tabs s))"
    by (simp_all add: storeInv_def wfStore_def keysOf_def)
  from ne have "length (tabs s) \<noteq> 0" by simp
  with False have two: "2 \<le> length (tabs s)" by arith
  let ?us = "filter (\<lambda>tab. key tab \<noteq> k) (tabs s)"
  from False have t: "tabs (closeTab k s) = ?us" and n: "nextKey (closeTab k s) = nextKey s"
    by (simp_all add: closeTab_def Let_def)
  show ?thesis
  proof (rule storeInv_sub [OF assms])
    show "tabs (closeTab k s) \<noteq> []"
      unfolding t using d two by (rule filter_key_nonempty)
    show "distinct (map key (tabs (closeTab k s)))"
      unfolding t using d by (rule distinct_map_filter)
    show "set (tabs (closeTab k s)) \<subseteq> set (tabs s)" unfolding t by auto
    show "nextKey (closeTab k s) = nextKey s" by (rule n)
  qed
qed

lemma find_key_Some:
  "k \<in> set (map key ts) \<Longrightarrow> \<exists>t. find (\<lambda>tab. key tab = k) ts = Some t \<and> t \<in> set ts"
  by (induction ts) auto

lemma findIndex_Some:
  "k \<in> set (map key ts) \<Longrightarrow> \<exists>i. findIndex (\<lambda>tab. key tab = k) ts = Some i \<and> i < length ts"
  by (induction ts) auto

lemma findIndex_less: "findIndex P ts = Some i \<Longrightarrow> i < length ts"
  by (induction ts arbitrary: i) (auto split: if_splits)

lemma storeInv_renameTab:
  assumes "storeInv s"
  shows "storeInv (renameTab k t s)"
proof -
  have c: "key \<circ> (\<lambda>tab. if key tab = k then tab\<lparr>title := trim t\<rparr> else tab) = key"
    by (rule ext) simp
  have keys: "keysOf (renameTab k t s) = keysOf s"
    by (simp add: renameTab_def keysOf_def c)
  have n: "nextKey (renameTab k t s) = nextKey s"
    and e: "tabs (renameTab k t s) = [] \<longleftrightarrow> tabs s = []"
    by (simp_all add: renameTab_def)
  from assms show ?thesis
    unfolding storeInv_def wfStore_def numberedKeys_def keys n e .
qed

lemma storeInv_closeOtherTabs:
  assumes "storeInv s" and "k \<in> set (keysOf s)"
  shows "storeInv (closeOtherTabs k s)"
proof -
  from assms(2) obtain t where f: "find (\<lambda>tab. key tab = k) (tabs s) = Some t"
    and m: "t \<in> set (tabs s)"
    using find_key_Some [of k "tabs s"] by (auto simp: keysOf_def)
  show ?thesis
    by (rule storeInv_sub [OF assms(1)]) (simp_all add: closeOtherTabs_def f m)
qed

lemma storeInv_closeLeftTabs:
  assumes "storeInv s"
  shows "storeInv (closeLeftTabs k s)"
proof -
  from assms have ne: "tabs s \<noteq> []" and d: "distinct (map key (tabs s))"
    by (simp_all add: storeInv_def wfStore_def keysOf_def)
  define n where "n = (case findIndex (\<lambda>tab. key tab = k) (tabs s) of
      Some currentIndex \<Rightarrow> currentIndex | None \<Rightarrow> length (tabs s) - 1)"
  have t: "tabs (closeLeftTabs k s) = drop n (tabs s)"
    by (simp add: closeLeftTabs_def n_def split: option.splits)
  have "n < length (tabs s)"
    using ne by (auto simp: n_def findIndex_less split: option.splits)
  then have "drop n (tabs s) \<noteq> []" by simp
  moreover from d have "distinct (map key (drop n (tabs s)))"
    by (simp add: drop_map [symmetric] distinct_drop)
  moreover have "set (drop n (tabs s)) \<subseteq> set (tabs s)" by (rule set_drop_subset)
  ultimately show ?thesis
    using t by (intro storeInv_sub [OF assms]) (simp_all add: closeLeftTabs_def)
qed

lemma storeInv_closeRightTabs:
  assumes "storeInv s" and "k \<in> set (keysOf s)"
  shows "storeInv (closeRightTabs k s)"
proof -
  from assms have ne: "tabs s \<noteq> []" and d: "distinct (map key (tabs s))"
    by (simp_all add: storeInv_def wfStore_def keysOf_def)
  from assms(2) obtain i where f: "findIndex (\<lambda>tab. key tab = k) (tabs s) = Some i"
    using findIndex_Some [of k "tabs s"] by (auto simp: keysOf_def)
  have t: "tabs (closeRightTabs k s) = take (i + 1) (tabs s)"
    by (simp add: closeRightTabs_def f)
  from ne have "take (i + 1) (tabs s) \<noteq> []" by simp
  moreover from d have "distinct (map key (take (i + 1) (tabs s)))"
    by (simp add: take_map [symmetric] distinct_take del: take_Suc_conv_app_nth)
  moreover have "set (take (i + 1) (tabs s)) \<subseteq> set (tabs s)" by (rule set_take_subset)
  ultimately show ?thesis
    using t by (intro storeInv_sub [OF assms(1)]) (simp_all add: closeRightTabs_def)
qed

lemma storeInv_applyOp:
  assumes "storeInv s" and "enabled s x"
  shows "storeInv (applyOp s x)"
proof (cases x)
  case AddTab
  with assms show ?thesis by (simp add: storeInv_addTab)
next
  case (CloseTab k)
  with assms show ?thesis by (simp add: storeInv_closeTab)
next
  case (SetActiveTab k)
  with assms show ?thesis
    by (simp add: setActiveTab_def storeInv_def wfStore_def numberedKeys_def keysOf_def)
next
  case (RenameTab k t)
  with assms show ?thesis by (simp add: storeInv_renameTab)
next
  case (CloseOtherTabs k)
  with assms show ?thesis by (simp add: storeInv_closeOtherTabs)
next
  case (CloseLeftTabs k)
  with assms show ?thesis by (simp add: storeInv_closeLeftTabs)
next
  case (CloseRightTabs k)
  with assms show ?thesis by (simp add: storeInv_closeRightTabs)
next
  case CloseAllTabs
  with storeInv_initialStore show ?thesis
    by (simp add: closeAllTabs_def initialStore_def)
qed

lemma storeInv_applyOps:
  "storeInv s \<Longrightarrow> applyOps s xs = Some s' \<Longrightarrow> storeInv s'"
proof (induction xs arbitrary: s)
  case Nil
  then show ?case by simp
next
  case (Cons x xs)
  from Cons.prems(2) have e: "enabled s x" and r: "applyOps (applyOp s x) xs = Some s'"
    by (simp_all split: if_splits)
  from storeInv_applyOp [OF Cons.prems(1) e] r show ?case by (rule Cons.IH)
qed

lemma reachable_wfStore: "applyOps initialStore xs = Some s \<Longrightarrow> wfStore s"
  using storeInv_applyOps [OF storeInv_initialStore] by (simp add: storeInv_def)

subsection \<open>Closing a tab\<close>

text \<open>
  C10. On a store whose tabs are non-empty with distinct, non-empty keys (every store
  the operations build from the initial one is such a store), \<open>closeTab\<close>
  never leaves the tab list empty. Closing when one tab remains gives the initial store
  (the default tab with key 1, active key 1). Closing one of several tabs removes the
  tabs with that key, which is exactly one tab, and the active key moves to the last
  remaining tab when the closed tab was the active one and stays otherwise.
\<close>

theorem closeTab_keeps_a_tab:
  assumes "wfStore state"
  shows "tabs (closeTab k state) \<noteq> []
       \<and> (length (tabs state) = 1 \<longrightarrow> closeTab k state = initialStore)
       \<and> (1 < length (tabs state) \<and> k \<in> set (keysOf state) \<longrightarrow>
            tabs (closeTab k state) = filter (\<lambda>tab. key tab \<noteq> k) (tabs state)
          \<and> length (tabs (closeTab k state)) = length (tabs state) - 1
          \<and> nextKey (closeTab k state) = nextKey state
          \<and> activeTabKey (closeTab k state) =
              (if k = activeTabKey state then key (last (tabs (closeTab k state)))
               else activeTabKey state))"
proof -
  let ?ts = "tabs state"
  let ?us = "filter (\<lambda>tab. key tab \<noteq> k) ?ts"
  from assms have ne: "?ts \<noteq> []" and d: "distinct (map key ?ts)"
    and nk: "[] \<notin> key ` set ?ts"
    by (auto simp: wfStore_def keysOf_def)
  have one: "length ?ts = 1 \<Longrightarrow> closeTab k state = initialStore"
    by (simp add: closeTab_def closeAllTabs_def initialStore_def)
  have many: "tabs (closeTab k state) = ?us
      \<and> nextKey (closeTab k state) = nextKey state
      \<and> activeTabKey (closeTab k state) =
          (if k = activeTabKey state then lastKeyOr1 ?us else activeTabKey state)"
    if "1 < length ?ts"
    using that by (simp add: closeTab_def Let_def)
  have us_ne: "?us \<noteq> []" if "1 < length ?ts"
    using filter_key_nonempty [OF d, of k] that by simp
  have last_key: "lastKeyOr1 ?us = key (last ?us)" if "1 < length ?ts"
  proof -
    from us_ne [OF that] have "last ?us \<in> set ?us" by (rule last_in_set)
    then have "last ?us \<in> set ?ts" by simp
    with nk have "key (last ?us) \<noteq> []" by force
    with us_ne [OF that] show ?thesis by (rule lastKeyOr1_last)
  qed
  have c1: "tabs (closeTab k state) \<noteq> []"
  proof (cases "length ?ts = 1")
    case True
    then show ?thesis by (simp add: one initialStore_def)
  next
    case False
    with ne have "1 < length ?ts" by (cases ?ts) auto
    with many us_ne show ?thesis by simp
  qed
  have c3: "tabs (closeTab k state) = ?us
      \<and> length (tabs (closeTab k state)) = length ?ts - 1
      \<and> nextKey (closeTab k state) = nextKey state
      \<and> activeTabKey (closeTab k state) =
          (if k = activeTabKey state then key (last (tabs (closeTab k state)))
           else activeTabKey state)"
    if "1 < length ?ts" and "k \<in> set (keysOf state)"
  proof -
    from that(2) have "k \<in> set (map key ?ts)" by (simp add: keysOf_def)
    from filter_key_length [OF d this]
    have len: "length ?us = length ?ts - 1" .
    from many [OF that(1)] have t: "tabs (closeTab k state) = ?us"
      and n: "nextKey (closeTab k state) = nextKey state"
      and a: "activeTabKey (closeTab k state) =
          (if k = activeTabKey state then lastKeyOr1 ?us else activeTabKey state)"
      by blast+
    show ?thesis unfolding t a last_key [OF that(1)] using len n by blast
  qed
  from c1 one c3 show ?thesis by blast
qed

theorem closeTab_keeps_a_tab_witness:
  "wfStore (addTab initialStore)
   \<and> tabs (closeTab ''2'' (addTab initialStore)) = [defaultTab]
   \<and> activeTabKey (closeTab ''2'' (addTab initialStore)) = ''1''"
proof -
  have d: "digits 2 = ''2''" by code_simp
  have h: "wfStore (addTab initialStore)"
    by (simp add: wfStore_def keysOf_def addTab_def initialStore_def defaultTab_def
        Let_def d)
  have k: "1 < length (tabs (addTab initialStore))
      \<and> ''2'' \<in> set (keysOf (addTab initialStore))"
    by (simp add: keysOf_def addTab_def initialStore_def defaultTab_def Let_def d)
  from closeTab_keeps_a_tab [OF h, of "''2''"] k h show ?thesis
    by (simp add: addTab_def initialStore_def defaultTab_def Let_def d)
qed

section \<open>Properties of the editor component\<close>

subsection \<open>Frame lemmas\<close>

lemma onDidChangeModelContent_frame:
  "mounted (onDidChangeModelContent s) = mounted s"
  "modelText (onDidChangeModelContent s) = modelText s"
  "modelEOL (onDidChangeModelContent s) = modelEOL s"
  "undoStack (onDidChangeModelContent s) = undoStack s"
  "undoOpen (onDidChangeModelContent s) = undoOpen s"
  "modelLanguage (onDidChangeModelContent s) = modelLanguage s"
  "revealedLine (onDidChangeModelContent s) = revealedLine s"
  "parseJsonError (onDidChangeModelContent s) = parseJsonError s"
  "jsonErrorDetailsModel (onDidChangeModelContent s) = jsonErrorDetailsModel s"
  "errorDecorationsRef (onDidChangeModelContent s) = errorDecorationsRef s"
  "toasts (onDidChangeModelContent s) = toasts s"
  "clock (onDidChangeModelContent s) = clock s"
  "updatedValues (onDidChangeModelContent s) = updatedValues s @ [modelText s]"
  by (simp_all add: onDidChangeModelContent_def Let_def setTimeout_def clearTimeout_def
      split: option.splits)

lemma recordEdit_fields:
  "mounted (recordEdit s) = mounted s"
  "modelText (recordEdit s) = modelText s"
  "modelEOL (recordEdit s) = modelEOL s"
  "undoStack (recordEdit s)
     = (if undoOpen s \<and> undoStack s \<noteq> [] then undoStack s else modelText s # undoStack s)"
  "undoOpen (recordEdit s) = True"
  "modelLanguage (recordEdit s) = modelLanguage s"
  "revealedLine (recordEdit s) = revealedLine s"
  "parseJsonError (recordEdit s) = parseJsonError s"
  "jsonErrorDetailsModel (recordEdit s) = jsonErrorDetailsModel s"
  "errorDecorationsRef (recordEdit s) = errorDecorationsRef s"
  "parseJsonErrorTimeoutRef (recordEdit s) = parseJsonErrorTimeoutRef s"
  "timers (recordEdit s) = timers s"
  "nextTimerId (recordEdit s) = nextTimerId s"
  "toasts (recordEdit s) = toasts s"
  "clock (recordEdit s) = clock s"
  "updatedValues (recordEdit s) = updatedValues s"
  by (simp_all add: recordEdit_def)

lemma replaceText_fields:
  "mounted (replaceText text s) = mounted s"
  "modelText (replaceText text s) = text"
  "modelEOL (replaceText text s) = modelEOL s"
  "undoStack (replaceText text s) = undoStack s"
  "undoOpen (replaceText text s) = undoOpen s"
  "modelLanguage (replaceText text s) = modelLanguage s"
  "revealedLine (replaceText text s) = revealedLine s"
  "parseJsonError (replaceText text s) = parseJsonError s"
  "jsonErrorDetailsModel (replaceText text s) = jsonErrorDetailsModel s"
  "errorDecorationsRef (replaceText text s) = errorDecorationsRef s"
  "toasts (replaceText text s) = toasts s"
  "clock (replaceText text s) = clock s"
  "updatedValues (replaceText text s)
     = (if modelText s = [] \<and> text = [] then updatedValues s else updatedValues s @ [text])"
  by (simp_all add: replaceText_def onDidChangeModelContent_frame)

lemma executeEdits_fields:
  "mounted (executeEdits text s) = mounted s"
  "modelText (executeEdits text s) = normalizeEOL (modelEOL s) text"
  "modelEOL (executeEdits text s) = modelEOL s"
  "undoStack (executeEdits text s)
     = (if undoOpen s \<and> undoStack s \<noteq> [] then undoStack s else modelText s # undoStack s)"
  "undoOpen (executeEdits text s) = True"
  "modelLanguage (executeEdits text s) = modelLanguage s"
  "revealedLine (executeEdits text s) = revealedLine s"
  "parseJsonError (executeEdits text s) = parseJsonError s"
  "jsonErrorDetailsModel (executeEdits text s) = jsonErrorDetailsModel s"
  "errorDecorationsRef (executeEdits text s) = errorDecorationsRef s"
  "toasts (executeEdits text s) = toasts s"
  "clock (executeEdits text s) = clock s"
  "updatedValues (executeEdits text s)
     = (if modelText s = [] \<and> normalizeEOL (modelEOL s) text = [] then updatedValues s
        else updatedValues s @ [normalizeEOL (modelEOL s) text])"
  by (simp_all add: executeEdits_def replaceText_fields recordEdit_fields)

lemma normalizeEOL_LF: "cr \<notin> set xs \<Longrightarrow> normalizeEOL LF xs = xs"
  by (induction xs) auto

lemma countEOL_noCR: "cr \<notin> set xs \<Longrightarrow> \<exists>lfs. countEOL xs = (0, lfs, 0)"
  by (induction xs) auto

lemma detectEOL_LF: "cr \<notin> set xs \<Longrightarrow> detectEOL LF xs = LF"
  using countEOL_noCR [of xs] by (auto simp: detectEOL_def)

lemma editorOn_fields:
  "mounted (editorOn text)"
  "cr \<notin> set text \<Longrightarrow> modelText (editorOn text) = text"
  "modelLanguage (editorOn text) = ''json''"
  "undoStack (editorOn text) = []"
  "timers (editorOn text) = []"
  "parseJsonError (editorOn text) = None"
  "cr \<notin> set text \<Longrightarrow> modelEOL (editorOn text) = LF"
  "undoOpen (editorOn text) = False"
  "toasts (editorOn text) = []"
  "updatedValues (editorOn text) = []"
  "clock (editorOn text) = 0"
  by (simp_all add: editorOn_def initializeEditor_def unmounted_def Let_def
      normalizeEOL_LF detectEOL_LF)

subsection \<open>Validation of blank text\<close>

lemma trim_Nil_iff: "trim val = [] \<longleftrightarrow> (\<forall>c \<in> set val. isWhiteSpace c)"
proof
  assume "trim val = []"
  then have "dropWhile isWhiteSpace (rev (dropWhile isWhiteSpace val)) = []"
    by (simp add: trim_def)
  then have a: "\<forall>c \<in> set (dropWhile isWhiteSpace val). isWhiteSpace c"
    by (simp add: dropWhile_eq_Nil_conv)
  have "dropWhile isWhiteSpace val = []"
  proof (rule ccontr)
    assume ne: "dropWhile isWhiteSpace val \<noteq> []"
    then have "\<not> isWhiteSpace (hd (dropWhile isWhiteSpace val))"
      by (rule hd_dropWhile)
    moreover from ne have "hd (dropWhile isWhiteSpace val) \<in> set (dropWhile isWhiteSpace val)"
      by (rule hd_in_set)
    ultimately show False using a by blast
  qed
  then show "\<forall>c \<in> set val. isWhiteSpace c"
    by (simp add: dropWhile_eq_Nil_conv)
next
  assume "\<forall>c \<in> set val. isWhiteSpace c"
  then have d: "dropWhile isWhiteSpace val = []"
    by (simp add: dropWhile_eq_Nil_conv)
  show "trim val = []" unfolding trim_def d by simp
qed

text \<open>
  C5. For every text that is empty or consists only of white space, \<open>editorValueValidate\<close>
  returns true and sets the parse error to null. The result is the same for every
  library, so neither the JSON nor the JSON5 parser has a part in it.
\<close>

theorem blank_text_is_valid:
  assumes "\<forall>c \<in> set val. isWhiteSpace c"
  shows "editorValueValidate lib val s = (True, s\<lparr>parseJsonError := None\<rparr>)"
proof -
  from assms have "trim val = []" by (simp add: trim_Nil_iff)
  then show ?thesis by (simp add: editorValueValidate_def)
qed

theorem blank_text_is_valid_witness:
  "editorValueValidate exampleLibrary ('' '' @ [nl, CHR 0x09]) (errorAt 1)
     = (True, (errorAt 1)\<lparr>parseJsonError := None\<rparr>)"
proof -
  have h: "\<forall>c \<in> set ('' '' @ [nl, CHR 0x09]). isWhiteSpace c"
    by (simp add: isWhiteSpace_def)
  from blank_text_is_valid [OF h] show ?thesis .
qed

subsection \<open>Repair that does nothing\<close>

text \<open>
  C3. On an empty buffer (or with no editor, where the text read is empty as well)
  \<open>autoFix\<close> returns false and changes nothing but the notifications, to which it adds the
  warning ``no content''; the result is the same for every library, so \<open>jsonrepair\<close> is not
  called. \<open>editorValueValidate\<close> on the same text returns true and sets the parse error
  to null.
\<close>

theorem autoFix_empty:
  assumes "getValueOrEmpty s = []"
  shows "autoFix lib s = (False, s\<lparr>toasts := toasts s @ [ToastWarning NoContent]\<rparr>)
       \<and> editorValueValidate lib (getValueOrEmpty s) s = (True, s\<lparr>parseJsonError := None\<rparr>)"
  using assms by (simp add: autoFix_def toast_def editorValueValidate_def trim_def)

theorem autoFix_empty_witness:
  "getValueOrEmpty (editorOn []) = []
   \<and> autoFix exampleLibrary (editorOn [])
     = (False, (editorOn [])\<lparr>toasts := [ToastWarning NoContent]\<rparr>)"
proof -
  have h: "getValueOrEmpty (editorOn []) = []"
    by (simp add: getValueOrEmpty_def editorOn_fields)
  have t: "toasts (editorOn []) = []"
    by (rule editorOn_fields)
  from autoFix_empty [OF h, of exampleLibrary] h t show ?thesis by simp
qed

text \<open>
  C9. When \<open>jsonrepair\<close> throws on a non-empty buffer, \<open>autoFix\<close> returns false and
  changes nothing but the notifications, to which it adds the error ``repair failed'': the
  text of the buffer and the parse error are as they were.
\<close>

theorem autoFix_failure:
  assumes "getValueOrEmpty s \<noteq> []" and "jsonrepair lib (getValueOrEmpty s) = None"
  shows "autoFix lib s = (False, s\<lparr>toasts := toasts s @ [ToastError RepairFailed]\<rparr>)
       \<and> modelText (snd (autoFix lib s)) = modelText s
       \<and> undoStack (snd (autoFix lib s)) = undoStack s
       \<and> parseJsonError (snd (autoFix lib s)) = parseJsonError s"
  using assms by (simp add: autoFix_def toast_def)

theorem autoFix_failure_witness:
  "getValueOrEmpty (editorOn ''{'') \<noteq> []
   \<and> jsonrepair exampleLibrary (getValueOrEmpty (editorOn ''{'')) = None
   \<and> fst (autoFix exampleLibrary (editorOn ''{'')) = False
   \<and> modelText (snd (autoFix exampleLibrary (editorOn ''{''))) = ''{''"
proof -
  have g: "getValueOrEmpty (editorOn ''{'') = ''{''"
    by (simp add: getValueOrEmpty_def editorOn_fields)
  have h: "getValueOrEmpty (editorOn ''{'') \<noteq> []" by (simp add: g)
  have r: "jsonrepair exampleLibrary (getValueOrEmpty (editorOn ''{'')) = None"
    unfolding g by code_simp
  from autoFix_failure [OF h r] h r show ?thesis by (simp add: editorOn_fields)
qed

subsection \<open>Jump to the error line\<close>

text \<open>
  C6. \<open>goToErrorLine\<close> refuses when there is no parse error or the line of the error is
  not at least 1: it changes nothing but the notifications, to which it adds the error
  ``locating failed'', so no line is revealed and no decoration is made. Otherwise it
  reveals the line of the error, decorates that line alone and closes the dialog of the
  error. (A parse error is only ever recorded once the editor exists: \<open>errorInv\<close>, which
  holds in every state the component reaches.)
\<close>

theorem goToErrorLine_refuses:
  "((parseJsonError s = None \<or> (\<exists>e. parseJsonError s = Some e \<and> \<not> 1 \<le> line e)) \<longrightarrow>
      goToErrorLine s = s\<lparr>toasts := toasts s @ [ToastError LocateFailed]\<rparr>)
   \<and> (\<forall>e. errorInv s \<and> parseJsonError s = Some e \<and> 1 \<le> line e \<longrightarrow>
        revealedLine (goToErrorLine s) = Some (line e)
      \<and> errorDecorationsRef (goToErrorLine s) = Some [line e]
      \<and> jsonErrorDetailsModel (goToErrorLine s) = False
      \<and> toasts (goToErrorLine s) = toasts s @ [ToastSuccess LocateSucceeded])"
  by (auto simp: goToErrorLine_def toast_def highlightErrorLine_def setTimeout_def Let_def
      errorInv_def split: option.splits)

theorem goToErrorLine_refuses_witness:
  "goToErrorLine (errorAt 0) = (errorAt 0)\<lparr>toasts := [ToastError LocateFailed]\<rparr>
   \<and> goToErrorLine (editorOn ''{}'') = (editorOn ''{}'')\<lparr>toasts := [ToastError LocateFailed]\<rparr>
   \<and> revealedLine (goToErrorLine (errorAt 3)) = Some 3
   \<and> errorDecorationsRef (goToErrorLine (errorAt 3)) = Some [3]"
proof -
  have e: "parseJsonError (errorAt l)
      = Some \<lparr>message = ''Unexpected token'', line = l, column = 0\<rparr>"
    and m: "mounted (errorAt l)" and t: "toasts (errorAt l) = []" for l
    by (simp_all add: errorAt_def editorOn_fields)
  have n: "parseJsonError (editorOn ''{}'') = None" and t': "toasts (editorOn ''{}'') = []"
    by (simp_all add: editorOn_fields)
  from goToErrorLine_refuses [of "errorAt 0"] goToErrorLine_refuses [of "editorOn ''{}''"]
    goToErrorLine_refuses [of "errorAt 3"]
  show ?thesis by (simp add: e m t n t' errorInv_def)
qed

subsection \<open>Unescape\<close>

lemma format_None:
  assumes "formatModelByUnEscapeJson lib t s = (None, s')"
  shows "\<exists>v. unescape_spec lib t = Some v
           \<and> s' = setEditorValue (JSON_stringify (numberText lib) 4 v) s"
  using assms
  by (auto simp: formatModelByUnEscapeJson_def unescape_spec_def
      split: if_splits sum.splits)

lemma format_Some:
  assumes "formatModelByUnEscapeJson lib t s = (Some m, s')"
  shows "s' = s \<and> (m = NotEscapedJson \<or> m = NotJsonData \<or> m = NoData)"
  using assms
  by (simp add: formatModelByUnEscapeJson_def split: if_splits sum.splits)

lemma format_rejects:
  assumes "unescape_spec lib t = None"
  shows "\<exists>m. formatModelByUnEscapeJson lib t s = (Some m, s)"
proof (cases "formatModelByUnEscapeJson lib t s")
  case (Pair r s')
  show ?thesis
  proof (cases r)
    case None
    with Pair format_None [of lib t s s'] assms show ?thesis by auto
  next
    case (Some m)
    with Pair format_Some [of lib t s m s'] show ?thesis by simp
  qed
qed

lemma moreAction_Unescape:
  "moreAction lib Unescape s =
     (if \<not> mounted s then (False, s)
      else case formatModelByUnEscapeJson lib (modelText s) s of
             (Some errorMsg, s1) \<Rightarrow> (False, toast (ToastError errorMsg) s1)
           | (None, s1) \<Rightarrow> (True, s1))"
  by (simp add: moreAction_def)

text \<open>
  C1. For every text of the buffer, the unescape action returns true only if the text
  wrapped as a JSON string literal parses, the unescaped string parses again and the value
  is an object or an array; the buffer then holds the serialised value. If a parse fails or
  the value is a scalar, the action returns false, the text and the undo history of the
  buffer are as they were, and on a mounted editor the state changes by one error
  notification only.
\<close>

theorem unescape_only_composite:
  "(fst (moreAction lib Unescape s) \<longrightarrow>
      (\<exists>v. unescape_spec lib (modelText s) = Some v
         \<and> snd (moreAction lib Unescape s)
             = setEditorValue (JSON_stringify (numberText lib) 4 v) s))
   \<and> (unescape_spec lib (modelText s) = None \<longrightarrow>
        \<not> fst (moreAction lib Unescape s)
      \<and> modelText (snd (moreAction lib Unescape s)) = modelText s
      \<and> undoStack (snd (moreAction lib Unescape s)) = undoStack s
      \<and> (mounted s \<longrightarrow>
           snd (moreAction lib Unescape s) = toast (ToastError NotEscapedJson) s
         \<or> snd (moreAction lib Unescape s) = toast (ToastError NotJsonData) s
         \<or> snd (moreAction lib Unescape s) = toast (ToastError NoData) s))"
proof (intro conjI impI)
  assume ok: "fst (moreAction lib Unescape s)"
  then have m: "mounted s" by (simp add: moreAction_Unescape split: if_splits)
  obtain r s1 where f: "formatModelByUnEscapeJson lib (modelText s) s = (r, s1)"
    by (cases "formatModelByUnEscapeJson lib (modelText s) s")
  with ok m have r: "r = None" by (cases r) (simp_all add: moreAction_Unescape)
  with f m have "snd (moreAction lib Unescape s) = s1" by (simp add: moreAction_Unescape)
  with format_None [of lib "modelText s" s s1] f r
  show "\<exists>v. unescape_spec lib (modelText s) = Some v
         \<and> snd (moreAction lib Unescape s)
             = setEditorValue (JSON_stringify (numberText lib) 4 v) s"
    by simp
next
  assume a: "unescape_spec lib (modelText s) = None"
  from format_rejects [OF a, of s] obtain m
    where f: "formatModelByUnEscapeJson lib (modelText s) s = (Some m, s)" by blast
  then have eq: "moreAction lib Unescape s =
      (if \<not> mounted s then (False, s) else (False, toast (ToastError m) s))"
    by (simp add: moreAction_Unescape)
  show "\<not> fst (moreAction lib Unescape s)" by (simp add: eq)
  show "modelText (snd (moreAction lib Unescape s)) = modelText s"
    by (simp add: eq toast_def)
  show "undoStack (snd (moreAction lib Unescape s)) = undoStack s"
    by (simp add: eq toast_def)
  from format_Some [OF f] have "m = NotEscapedJson \<or> m = NotJsonData \<or> m = NoData"
    by simp
  then show "snd (moreAction lib Unescape s) = toast (ToastError NotEscapedJson) s
         \<or> snd (moreAction lib Unescape s) = toast (ToastError NotJsonData) s
         \<or> snd (moreAction lib Unescape s) = toast (ToastError NoData) s"
    if "mounted s" using that by (auto simp: eq)
qed

theorem unescape_only_composite_witness:
  "fst (moreAction exampleLibrary Unescape (editorOn escapedArray))
   \<and> unescape_spec exampleLibrary escapedArray = Some (JArr [JNum 1, JStr ''a''])
   \<and> unescape_spec exampleLibrary ''1'' = None
   \<and> \<not> fst (moreAction exampleLibrary Unescape (editorOn ''1''))
   \<and> modelText (snd (moreAction exampleLibrary Unescape (editorOn ''1''))) = ''1''"
proof -
  have ok: "fst (moreAction exampleLibrary Unescape (editorOn escapedArray))"
    by code_simp
  have v: "unescape_spec exampleLibrary escapedArray = Some (JArr [JNum 1, JStr ''a''])"
    by code_simp
  have n: "unescape_spec exampleLibrary ''1'' = None" by code_simp
  from unescape_only_composite [of exampleLibrary "editorOn ''1''"] n
  have "\<not> fst (moreAction exampleLibrary Unescape (editorOn ''1''))
      \<and> modelText (snd (moreAction exampleLibrary Unescape (editorOn ''1''))) = ''1''"
    by (simp add: editorOn_fields)
  with unescape_only_composite [of exampleLibrary "editorOn escapedArray"] ok v n
  show ?thesis by simp
qed

subsection \<open>Comment stripping\<close>

lemma scan_resume: "scan (resume m) (scan m x) = scan m x"
  by (induction m x rule: scan.induct) (auto split: list.splits)

text \<open>
  C8. Stripping the comments is idempotent: for every text, stripping twice gives the
  same string as stripping once.
\<close>

theorem removeJsonComments_idempotent:
  "removeJsonComments (removeJsonComments x) = removeJsonComments x"
  using scan_resume [of Code x] by (simp add: removeJsonComments_def)

subsection \<open>Sorting the fields\<close>

lemma a_le_b: "''a'' \<le> ''b''" "\<not> ''b'' \<le> ''a''"
  by code_simp+

lemma quote_a: "quoteJSONString ''a'' = [dq] @ ''a'' @ [dq]"
  by code_simp

lemma quote_b: "quoteJSONString ''b'' = [dq] @ ''b'' @ [dq]"
  by code_simp

lemma sortJson_example:
  assumes "numberText lib one = ''1''" and "numberText lib two = ''2''"
    and "2 \<le> sortIndent lib"
  shows "sortJson lib (JObj [(''b'', JNum one), (''a'', JNum two)]) Asc
           = prettyObject (replicate (min 10 (sortIndent lib)) CHR '' '') ''a'' ''2'' ''b'' ''1''"
    and "sortJson lib (JObj [(''b'', JNum one), (''a'', JNum two)]) Desc
           = prettyObject (replicate (min 10 (sortIndent lib)) CHR '' '') ''b'' ''1'' ''a'' ''2''"
proof -
  from assms(3) have g: "replicate (min 10 (sortIndent lib)) CHR '' '' \<noteq> []" by auto
  show "sortJson lib (JObj [(''b'', JNum one), (''a'', JNum two)]) Asc
           = prettyObject (replicate (min 10 (sortIndent lib)) CHR '' '') ''a'' ''2'' ''b'' ''1''"
    using g assms(1,2)
    by (simp add: sortJson_def JSON_stringify_def prettyObject_def a_le_b quote_a quote_b
        Let_def)
  show "sortJson lib (JObj [(''b'', JNum one), (''a'', JNum two)]) Desc
           = prettyObject (replicate (min 10 (sortIndent lib)) CHR '' '') ''b'' ''1'' ''a'' ''2''"
    using g assms(1,2)
    by (simp add: sortJson_def JSON_stringify_def prettyObject_def a_le_b quote_a quote_b
        Let_def)
qed

text \<open>
  C7. On the buffer \<open>{"b":1,"a":2}\<close>, which \<open>JSON.parse\<close> reads as the object with the
  members b and a in this order, \<open>fieldSort\<close> with the ascending order leaves in the buffer
  the pretty-printed text with a before b, and with the descending order the one with b
  before a, each member on a line of its own, indented by the width of \<open>sortJson\<close>, which
  is at least 2. What \<open>sortJson\<close> returns is the text, a string. The buffer holds it
  with the line ends of the model, so as it is when the line end of the model is LF; the
  edit lands in the undo history.
\<close>

theorem fieldSort_example:
  assumes "mounted s" and "modelText s = exampleObject" and "modelLanguage s = ''json''"
    and "JSON_parse lib exampleObject = Inr (JObj [(''b'', JNum one), (''a'', JNum two)])"
    and "numberText lib one = ''1''" and "numberText lib two = ''2''"
    and "2 \<le> sortIndent lib"
  shows "fst (fieldSort lib Asc s) = Inr True
       \<and> modelText (snd (fieldSort lib Asc s))
           = normalizeEOL (modelEOL s)
               (prettyObject (replicate (min 10 (sortIndent lib)) CHR '' '')
                  ''a'' ''2'' ''b'' ''1'')
       \<and> fst (fieldSort lib Desc s) = Inr True
       \<and> modelText (snd (fieldSort lib Desc s))
           = normalizeEOL (modelEOL s)
               (prettyObject (replicate (min 10 (sortIndent lib)) CHR '' '')
                  ''b'' ''1'' ''a'' ''2'')
       \<and> (modelEOL s = LF \<longrightarrow>
            modelText (snd (fieldSort lib Asc s))
              = prettyObject (replicate (min 10 (sortIndent lib)) CHR '' '')
                  ''a'' ''2'' ''b'' ''1''
          \<and> modelText (snd (fieldSort lib Desc s))
              = prettyObject (replicate (min 10 (sortIndent lib)) CHR '' '')
                  ''b'' ''1'' ''a'' ''2'')
       \<and> undoStack (snd (fieldSort lib Asc s))
           = (if undoOpen s \<and> undoStack s \<noteq> [] then undoStack s
              else exampleObject # undoStack s)
       \<and> sortJson lib (JObj [(''b'', JNum one), (''a'', JNum two)]) Asc
           = prettyObject (replicate (min 10 (sortIndent lib)) CHR '' '') ''a'' ''2'' ''b'' ''1''
       \<and> sortJson lib (JObj [(''b'', JNum one), (''a'', JNum two)]) Desc
           = prettyObject (replicate (min 10 (sortIndent lib)) CHR '' '') ''b'' ''1'' ''a'' ''2''"
proof -
  have t: "trim exampleObject \<noteq> []" by code_simp
  from assms(1,3,4) t
  have v: "editorValueValidate lib exampleObject s = (True, s\<lparr>parseJsonError := None\<rparr>)"
    by (simp add: editorValueValidate_def jsonParseError_def)
  have f: "fieldSort lib ord s =
      (Inr True, executeEdits (sortJson lib (JObj [(''b'', JNum one), (''a'', JNum two)]) ord)
         (s\<lparr>parseJsonError := None\<rparr>))" for ord
    using assms(1,2,4) v by (simp add: fieldSort_def setEditorValue_def Let_def)
  have n: "normalizeEOL LF (prettyObject (replicate k CHR '' '') k1 v1 k2 v2)
      = prettyObject (replicate k CHR '' '') k1 v1 k2 v2"
    if "cr \<notin> set (k1 @ v1 @ k2 @ v2)" for k k1 v1 k2 v2
    using that by (intro normalizeEOL_LF) (auto simp: prettyObject_def)
  show ?thesis
    unfolding f
    using sortJson_example [OF assms(5,6,7)] assms(2)
    by (simp add: executeEdits_fields n)
qed

theorem fieldSort_example_witness:
  "modelText (snd (fieldSort exampleLibrary Asc (editorOn exampleObject)))
     = prettyObject ''    '' ''a'' ''2'' ''b'' ''1''
   \<and> modelText (snd (fieldSort exampleLibrary Desc (editorOn exampleObject)))
     = prettyObject ''    '' ''b'' ''1'' ''a'' ''2''"
proof -
  have p: "JSON_parse exampleLibrary exampleObject
      = Inr (JObj [(''b'', JNum 1), (''a'', JNum 2)])"
    by code_simp
  have n1: "numberText exampleLibrary 1 = ''1''" and n2: "numberText exampleLibrary 2 = ''2''"
    by code_simp+
  have i: "2 \<le> sortIndent exampleLibrary"
    by (simp add: exampleLibrary_def tableLibrary_def)
  have g: "replicate (min 10 (sortIndent exampleLibrary)) CHR '' '' = ''    ''"
    by code_simp
  have c: "cr \<notin> set exampleObject" by (simp add: exampleObject_def)
  from fieldSort_example [OF editorOn_fields(1) editorOn_fields(2) [OF c] editorOn_fields(3)
      p n1 n2 i]
  have "modelEOL (editorOn exampleObject) = LF \<longrightarrow>
      modelText (snd (fieldSort exampleLibrary Asc (editorOn exampleObject)))
        = prettyObject (replicate (min 10 (sortIndent exampleLibrary)) CHR '' '')
            ''a'' ''2'' ''b'' ''1''
      \<and> modelText (snd (fieldSort exampleLibrary Desc (editorOn exampleObject)))
        = prettyObject (replicate (min 10 (sortIndent exampleLibrary)) CHR '' '')
            ''b'' ''1'' ''a'' ''2''"
    by blast
  with editorOn_fields(7) [OF c] show ?thesis unfolding g by blast
qed

subsection \<open>The debounced validation\<close>

lemma map_filter_Nil_iff: "List.map_filter g xs = [] \<longleftrightarrow> (\<forall>x \<in> set xs. g x = None)"
  by (auto simp: List.map_filter_def filter_empty_conv)

lemma map_filter_append:
  "List.map_filter g (xs @ ys) = List.map_filter g xs @ List.map_filter g ys"
  by (simp add: List.map_filter_def)

lemma length_map_filter_filter:
  "length (List.map_filter g (filter P xs)) \<le> length (List.map_filter g xs)"
proof -
  have "filter (\<lambda>x. g x \<noteq> None) (filter P xs) = filter P (filter (\<lambda>x. g x \<noteq> None) xs)"
    by (simp add: conj_commute)
  then show ?thesis by (simp add: List.map_filter_def del: filter_filter)
qed

lemma onContent_timers:
  assumes "jsonBuffer s"
  shows "timers (onDidChangeModelContent s) =
           (case parseJsonErrorTimeoutRef s of
              None \<Rightarrow> timers s
            | Some h \<Rightarrow> filter (\<lambda>t. fst t \<noteq> h) (timers s))
           @ [(nextTimerId s, clock s + 1000, ValidateTask (modelText s))]"
    and "parseJsonErrorTimeoutRef (onDidChangeModelContent s) = Some (nextTimerId s)"
  using assms
  by (auto simp: jsonBuffer_def onDidChangeModelContent_def Let_def setTimeout_def
      clearTimeout_def split: option.splits)

lemma onContent_pending:
  assumes "jsonBuffer s" and "debounceInv s"
  shows "pendingValidations (onDidChangeModelContent s) = [(clock s + 1000, modelText s)]"
proof -
  let ?old = "case parseJsonErrorTimeoutRef s of
              None \<Rightarrow> timers s
            | Some h \<Rightarrow> filter (\<lambda>t. fst t \<noteq> h) (timers s)"
  from assms(2) have inv: "\<And>x. x \<in> set (timers s) \<Longrightarrow> validationOf x \<noteq> None
      \<Longrightarrow> parseJsonErrorTimeoutRef s = Some (fst x)"
    unfolding debounceInv_def by blast
  have "\<forall>x \<in> set ?old. validationOf x = None"
  proof (cases "parseJsonErrorTimeoutRef s")
    case None
    with inv show ?thesis by fastforce
  next
    case (Some h)
    with inv show ?thesis by fastforce
  qed
  then have "List.map_filter validationOf ?old = []"
    by (simp only: map_filter_Nil_iff)
  then show ?thesis
    unfolding pendingValidations_def onContent_timers(1) [OF assms(1)] map_filter_append
    by (simp add: List.map_filter_def)
qed

lemma onContent_inv:
  assumes "jsonBuffer s" and "debounceInv s"
  shows "debounceInv (onDidChangeModelContent s)"
proof -
  have p: "length (pendingValidations (onDidChangeModelContent s)) \<le> 1"
    by (simp add: onContent_pending [OF assms])
  have "\<forall>x \<in> set (timers (onDidChangeModelContent s)).
          validationOf x \<noteq> None \<longrightarrow> fst x = nextTimerId s"
    using assms(2) unfolding onContent_timers(1) [OF assms(1)]
    by (auto simp: debounceInv_def split: option.splits)
  with p show ?thesis
    unfolding debounceInv_def onContent_timers(2) [OF assms(1)] by simp
qed

lemma onContent_jsonBuffer: "jsonBuffer (onDidChangeModelContent s) = jsonBuffer s"
  by (simp add: jsonBuffer_def onDidChangeModelContent_frame)

lemma debounceInv_cong:
  assumes "timers s' = timers s" and "parseJsonErrorTimeoutRef s' = parseJsonErrorTimeoutRef s"
  shows "debounceInv s' = debounceInv s"
  using assms by (simp add: debounceInv_def pendingValidations_def)

lemma contentChange_pending:
  assumes "jsonBuffer s" and "debounceInv s"
  shows "pendingValidations (contentChange val s) = [(clock s + 1000, val)]"
    and "debounceInv (contentChange val s)"
    and "jsonBuffer (contentChange val s)"
    and "clock (contentChange val s) = clock s"
proof -
  let ?s = "(recordEdit s)\<lparr>modelText := val\<rparr>"
  from assms(1) have j: "jsonBuffer ?s" by (simp add: jsonBuffer_def recordEdit_fields)
  have "debounceInv ?s = debounceInv s"
    by (rule debounceInv_cong) (simp_all add: recordEdit_fields)
  with assms(2) have i: "debounceInv ?s" by simp
  from onContent_pending [OF j i]
  show "pendingValidations (contentChange val s) = [(clock s + 1000, val)]"
    by (simp add: contentChange_def recordEdit_fields)
  from onContent_inv [OF j i] show "debounceInv (contentChange val s)"
    by (simp add: contentChange_def)
  from j show "jsonBuffer (contentChange val s)"
    by (simp add: contentChange_def onContent_jsonBuffer)
  show "clock (contentChange val s) = clock s"
    by (simp add: contentChange_def onDidChangeModelContent_frame recordEdit_fields)
qed

lemma executeEdits_contentChange:
  assumes "modelText s \<noteq> [] \<or> normalizeEOL (modelEOL s) text \<noteq> []"
  shows "executeEdits text s = contentChange (normalizeEOL (modelEOL s) text) s"
  using assms by (auto simp: executeEdits_def replaceText_def contentChange_def recordEdit_fields)

lemma runTask_frame:
  "timers (runTask lib k s) = timers s"
  "parseJsonErrorTimeoutRef (runTask lib k s) = parseJsonErrorTimeoutRef s"
  "mounted (runTask lib k s) = mounted s"
  "modelLanguage (runTask lib k s) = modelLanguage s"
  "clock (runTask lib k s) = clock s"
  by (simp_all add: runTask_def editorValueValidate_def Let_def
      split: task.splits option.splits)

lemma foldl_runTask_frame:
  "timers (foldl (\<lambda>s' x. runTask lib (snd (snd x)) s') s xs) = timers s
   \<and> parseJsonErrorTimeoutRef (foldl (\<lambda>s' x. runTask lib (snd (snd x)) s') s xs)
       = parseJsonErrorTimeoutRef s
   \<and> mounted (foldl (\<lambda>s' x. runTask lib (snd (snd x)) s') s xs) = mounted s
   \<and> modelLanguage (foldl (\<lambda>s' x. runTask lib (snd (snd x)) s') s xs) = modelLanguage s
   \<and> clock (foldl (\<lambda>s' x. runTask lib (snd (snd x)) s') s xs) = clock s"
  by (induction xs arbitrary: s) (simp_all add: runTask_frame)

lemma advance_frame:
  "timers (advance lib t s) = filter (\<lambda>x. \<not> fst (snd x) \<le> t) (timers s)"
  "parseJsonErrorTimeoutRef (advance lib t s) = parseJsonErrorTimeoutRef s"
  "mounted (advance lib t s) = mounted s"
  "modelLanguage (advance lib t s) = modelLanguage s"
  "clock (advance lib t s) = max (clock s) t"
  by (simp_all add: advance_def foldl_runTask_frame)

lemma advance_inv:
  assumes "debounceInv s"
  shows "debounceInv (advance lib t s)"
proof -
  have "length (pendingValidations (advance lib t s)) \<le> length (pendingValidations s)"
    unfolding pendingValidations_def advance_frame by (rule length_map_filter_filter)
  with assms show ?thesis
    by (auto simp: debounceInv_def advance_frame)
qed















subsection \<open>Repair that succeeds\<close>

lemma undo_fields:
  assumes "mounted s" and "undoStack s = t # ts"
  shows "modelText (undo s) = t" and "undoStack (undo s) = ts"
    and "undoOpen (undo s) = False"
  using assms by (simp_all add: undo_def replaceText_fields)

text \<open>
  C2. When \<open>jsonrepair\<close> succeeds on a non-empty buffer, \<open>autoFix\<close> returns true; the
  whole text of the buffer is the repaired text, with the line ends of the model, put there
  by one edit that lands in the undo history. The code pushes no undo stop, so the edit
  joins the step of the history that is open: one \<open>undo\<close> then takes back the repair
  together with the earlier edits of that step, and gives the text from before the repair
  only when no step is open. Outside the text and its history: the parse error is null and
  its dialog is closed; the notification ``repair succeeded'' is shown; and the editor
  reports the edit to the listener like any other, so the text goes to \<open>onUpdateValue\<close>
  and, on a json or json5 buffer, the one pending validation is that of the repaired text,
  due 1000 ms later. The editor, its language, its line ends and the clock are as before.
\<close>

theorem autoFix_success:
  assumes "getValueOrEmpty s \<noteq> []" and "jsonrepair lib (getValueOrEmpty s) = Some repaired"
  shows "autoFix lib s =
           (True, (executeEdits repaired s)
                    \<lparr>jsonErrorDetailsModel := False, parseJsonError := None,
                     toasts := toasts s @ [ToastSuccess RepairSucceeded]\<rparr>)
       \<and> modelText (snd (autoFix lib s)) = normalizeEOL (modelEOL s) repaired
       \<and> undoStack (snd (autoFix lib s))
           = (if undoOpen s \<and> undoStack s \<noteq> [] then undoStack s
              else modelText s # undoStack s)
       \<and> undoOpen (snd (autoFix lib s))
       \<and> modelText (undo (snd (autoFix lib s)))
           = (if undoOpen s \<and> undoStack s \<noteq> [] then hd (undoStack s) else modelText s)
       \<and> undoStack (undo (snd (autoFix lib s)))
           = (if undoOpen s \<and> undoStack s \<noteq> [] then tl (undoStack s) else undoStack s)
       \<and> parseJsonError (snd (autoFix lib s)) = None
       \<and> jsonErrorDetailsModel (snd (autoFix lib s)) = False
       \<and> toasts (snd (autoFix lib s)) = toasts s @ [ToastSuccess RepairSucceeded]
       \<and> updatedValues (snd (autoFix lib s))
           = updatedValues s @ [normalizeEOL (modelEOL s) repaired]
       \<and> (jsonBuffer s \<and> debounceInv s \<longrightarrow>
            pendingValidations (snd (autoFix lib s))
              = [(clock s + 1000, normalizeEOL (modelEOL s) repaired)])
       \<and> mounted (snd (autoFix lib s)) = mounted s
       \<and> modelLanguage (snd (autoFix lib s)) = modelLanguage s
       \<and> modelEOL (snd (autoFix lib s)) = modelEOL s
       \<and> clock (snd (autoFix lib s)) = clock s"
proof -
  let ?s' = "(executeEdits repaired s)
                    \<lparr>jsonErrorDetailsModel := False, parseJsonError := None,
                     toasts := toasts s @ [ToastSuccess RepairSucceeded]\<rparr>"
  from assms(1) have m: "mounted s" and ne: "modelText s \<noteq> []"
    by (auto simp: getValueOrEmpty_def split: if_splits)
  have eq: "autoFix lib s = (True, ?s')"
    using assms m
    by (simp add: autoFix_def toast_def setEditorValue_def Let_def executeEdits_fields)
  have sn: "snd (autoFix lib s) = ?s'" unfolding eq by simp
  have c: "executeEdits repaired s = contentChange (normalizeEOL (modelEOL s) repaired) s"
    using ne by (simp add: executeEdits_contentChange)
  have p: "pendingValidations (snd (autoFix lib s))
        = [(clock s + 1000, normalizeEOL (modelEOL s) repaired)]"
    if "jsonBuffer s" and "debounceInv s"
    unfolding sn c
    using contentChange_pending(1) [OF that, of "normalizeEOL (modelEOL s) repaired"]
    by (simp add: pendingValidations_def)
  have m': "mounted ?s'" using m by (simp add: executeEdits_fields)
  have u: "modelText (undo (snd (autoFix lib s)))
           = (if undoOpen s \<and> undoStack s \<noteq> [] then hd (undoStack s) else modelText s)
       \<and> undoStack (undo (snd (autoFix lib s)))
           = (if undoOpen s \<and> undoStack s \<noteq> [] then tl (undoStack s) else undoStack s)"
  proof (cases "undoOpen s \<and> undoStack s \<noteq> []")
    case True
    then obtain t ts where st: "undoStack s = t # ts" by (cases "undoStack s") auto
    with True have "undoStack ?s' = t # ts" by (simp add: executeEdits_fields)
    from undo_fields(1,2) [OF m' this] True st show ?thesis unfolding sn by simp
  next
    case False
    then have "undoStack ?s' = modelText s # undoStack s"
      by (auto simp: executeEdits_fields)
    from undo_fields(1,2) [OF m' this] False show ?thesis unfolding sn by auto
  qed
  have rest: "modelText (snd (autoFix lib s)) = normalizeEOL (modelEOL s) repaired
       \<and> undoStack (snd (autoFix lib s))
           = (if undoOpen s \<and> undoStack s \<noteq> [] then undoStack s
              else modelText s # undoStack s)
       \<and> undoOpen (snd (autoFix lib s))
       \<and> parseJsonError (snd (autoFix lib s)) = None
       \<and> jsonErrorDetailsModel (snd (autoFix lib s)) = False
       \<and> toasts (snd (autoFix lib s)) = toasts s @ [ToastSuccess RepairSucceeded]
       \<and> updatedValues (snd (autoFix lib s))
           = updatedValues s @ [normalizeEOL (modelEOL s) repaired]
       \<and> mounted (snd (autoFix lib s)) = mounted s
       \<and> modelLanguage (snd (autoFix lib s)) = modelLanguage s
       \<and> modelEOL (snd (autoFix lib s)) = modelEOL s
       \<and> clock (snd (autoFix lib s)) = clock s"
    unfolding sn using ne by (simp add: executeEdits_fields)
  from eq p u rest show ?thesis by blast
qed

theorem autoFix_success_witness:
  "modelText (snd (autoFix exampleLibrary (editorOn brokenObject))) = repairedObject
   \<and> modelText (undo (snd (autoFix exampleLibrary (editorOn brokenObject)))) = brokenObject
   \<and> pendingValidations (snd (autoFix exampleLibrary (editorOn brokenObject)))
       = [(1000, repairedObject)]
   \<and> modelText (snd (autoFix exampleLibrary (setEditorValue brokenObject (editorOn ''[]''))))
       = repairedObject
   \<and> modelText (undo (snd (autoFix exampleLibrary
        (setEditorValue brokenObject (editorOn ''[]''))))) = ''[]''"
proof -
  let ?s = "editorOn brokenObject"
  let ?t = "setEditorValue brokenObject (editorOn ''[]'')"
  have nc: "cr \<notin> set brokenObject" by (simp add: brokenObject_def)
  have g: "getValueOrEmpty ?s = brokenObject"
    by (simp add: getValueOrEmpty_def editorOn_fields(1) editorOn_fields(2) [OF nc])
  have h: "getValueOrEmpty ?s \<noteq> []"
    unfolding g by (simp add: brokenObject_def)
  have r: "jsonrepair exampleLibrary (getValueOrEmpty ?s) = Some repairedObject"
    unfolding g by code_simp
  have j: "jsonBuffer ?s"
    by (simp add: jsonBuffer_def editorOn_fields)
  have i: "debounceInv ?s"
    by (simp add: debounceInv_def pendingValidations_def List.map_filter_def editorOn_fields)
  have n: "normalizeEOL (modelEOL ?s) repairedObject = repairedObject"
    by code_simp
  have g2: "getValueOrEmpty ?t = brokenObject"
    by code_simp
  have h2: "getValueOrEmpty ?t \<noteq> []"
    unfolding g2 by (simp add: brokenObject_def)
  have r2: "jsonrepair exampleLibrary (getValueOrEmpty ?t) = Some repairedObject"
    unfolding g2 by code_simp
  have n2: "normalizeEOL (modelEOL ?t) repairedObject = repairedObject"
    by code_simp
  have o2: "undoOpen ?t \<and> undoStack ?t \<noteq> []"
    by code_simp
  have k2: "hd (undoStack ?t) = ''[]''"
    by code_simp
  from autoFix_success [OF h r]
  have a: "modelText (snd (autoFix exampleLibrary ?s))
      = normalizeEOL (modelEOL ?s) repairedObject"
    and b: "modelText (undo (snd (autoFix exampleLibrary ?s)))
      = (if undoOpen ?s \<and> undoStack ?s \<noteq> [] then hd (undoStack ?s) else modelText ?s)"
    and p: "jsonBuffer ?s \<and> debounceInv ?s \<longrightarrow>
      pendingValidations (snd (autoFix exampleLibrary ?s))
        = [(clock ?s + 1000, normalizeEOL (modelEOL ?s) repairedObject)]"
    by blast+
  from autoFix_success [OF h2 r2]
  have a2: "modelText (snd (autoFix exampleLibrary ?t))
      = normalizeEOL (modelEOL ?t) repairedObject"
    and b2: "modelText (undo (snd (autoFix exampleLibrary ?t)))
      = (if undoOpen ?t \<and> undoStack ?t \<noteq> [] then hd (undoStack ?t) else modelText ?t)"
    by blast+
  from a have a': "modelText (snd (autoFix exampleLibrary ?s)) = repairedObject"
    by (simp only: n)
  from b have b': "modelText (undo (snd (autoFix exampleLibrary ?s))) = brokenObject"
    by (simp add: editorOn_fields(4) editorOn_fields(2) [OF nc])
  from p j i
  have p': "pendingValidations (snd (autoFix exampleLibrary ?s)) = [(1000, repairedObject)]"
    by (simp add: n editorOn_fields(11))
  from a2 have a2': "modelText (snd (autoFix exampleLibrary ?t)) = repairedObject"
    by (simp only: n2)
  from b2 o2 have b2': "modelText (undo (snd (autoFix exampleLibrary ?t))) = ''[]''"
    by (simp add: k2)
  from a' b' p' a2' b2' show ?thesis by blast
qed

text \<open>
  C2 as it is worded does not hold, on two counts. First, the repair changes more than
  the text, its history and the error state: on the text \<open>{a:1,}\<close> the state after the
  repair is not the state before it with the text, the history, the parse error and the
  dialog replaced; a notification has been added, a text has been passed to
  \<open>onUpdateValue\<close> and a validation is pending. Second, the repair is not a step of the
  history of its own: when the text \<open>{a:1,}\<close> was itself put into a buffer holding \<open>[]\<close>
  by an edit with no undo stop after it, one \<open>undo\<close> after the repair gives \<open>[]\<close>, not
  the text from before the repair.
\<close>

theorem autoFix_frame_counterexample:
  "snd (autoFix exampleLibrary (editorOn brokenObject))
     \<noteq> (editorOn brokenObject)
         \<lparr>modelText := repairedObject, undoStack := [brokenObject], undoOpen := True,
          parseJsonError := None, jsonErrorDetailsModel := False\<rparr>
   \<and> toasts (editorOn brokenObject) = []
   \<and> toasts (snd (autoFix exampleLibrary (editorOn brokenObject)))
       = [ToastSuccess RepairSucceeded]
   \<and> updatedValues (editorOn brokenObject) = []
   \<and> updatedValues (snd (autoFix exampleLibrary (editorOn brokenObject))) = [repairedObject]
   \<and> timers (editorOn brokenObject) = []
   \<and> timers (snd (autoFix exampleLibrary (editorOn brokenObject)))
       = [(1, 1000, ValidateTask repairedObject)]
   \<and> modelText (setEditorValue brokenObject (editorOn ''[]'')) = brokenObject
   \<and> fst (autoFix exampleLibrary (setEditorValue brokenObject (editorOn ''[]'')))
   \<and> modelText (snd (autoFix exampleLibrary (setEditorValue brokenObject (editorOn ''[]''))))
       = repairedObject
   \<and> modelText (undo (snd (autoFix exampleLibrary
        (setEditorValue brokenObject (editorOn ''[]''))))) = ''[]''
   \<and> modelText (undo (snd (autoFix exampleLibrary
        (setEditorValue brokenObject (editorOn ''[]''))))) \<noteq> brokenObject"
proof -
  have a: "toasts (editorOn brokenObject) = []"
    and b: "updatedValues (editorOn brokenObject) = []"
    and c: "timers (editorOn brokenObject) = []"
    by (simp_all add: editorOn_fields)
  have d: "toasts (snd (autoFix exampleLibrary (editorOn brokenObject)))
       = [ToastSuccess RepairSucceeded]"
    by code_simp
  have e: "updatedValues (snd (autoFix exampleLibrary (editorOn brokenObject)))
       = [repairedObject]"
    by code_simp
  have f: "timers (snd (autoFix exampleLibrary (editorOn brokenObject)))
       = [(1, 1000, ValidateTask repairedObject)]"
    by code_simp
  have "toasts (snd (autoFix exampleLibrary (editorOn brokenObject)))
      \<noteq> toasts ((editorOn brokenObject)
         \<lparr>modelText := repairedObject, undoStack := [brokenObject], undoOpen := True,
          parseJsonError := None, jsonErrorDetailsModel := False\<rparr>)"
    unfolding d by (simp add: a)
  then have g: "snd (autoFix exampleLibrary (editorOn brokenObject))
     \<noteq> (editorOn brokenObject)
         \<lparr>modelText := repairedObject, undoStack := [brokenObject], undoOpen := True,
          parseJsonError := None, jsonErrorDetailsModel := False\<rparr>"
    by (rule contrapos_nn) simp
  have h: "modelText (setEditorValue brokenObject (editorOn ''[]'')) = brokenObject"
    by code_simp
  have i: "fst (autoFix exampleLibrary (setEditorValue brokenObject (editorOn ''[]'')))"
    by code_simp
  have j: "modelText (snd (autoFix exampleLibrary
        (setEditorValue brokenObject (editorOn ''[]'')))) = repairedObject"
    by code_simp
  have k: "modelText (undo (snd (autoFix exampleLibrary
        (setEditorValue brokenObject (editorOn ''[]''))))) = ''[]''"
    by code_simp
  have l: "modelText (undo (snd (autoFix exampleLibrary
        (setEditorValue brokenObject (editorOn ''[]''))))) \<noteq> brokenObject"
    unfolding k by (simp add: brokenObject_def)
  from a b c d e f g h i j k l show ?thesis by blast
qed

subsection \<open>The states the component reaches\<close>

lemma errorInv_mounted: "mounted s \<Longrightarrow> errorInv s"
  by (simp add: errorInv_def)

lemma onContent_inv_any:
  assumes "debounceInv s"
  shows "debounceInv (onDidChangeModelContent s)"
proof (cases "jsonBuffer s")
  case True
  then show ?thesis using assms by (rule onContent_inv)
next
  case False
  then have "timers (onDidChangeModelContent s) = timers s"
    and "parseJsonErrorTimeoutRef (onDidChangeModelContent s) = parseJsonErrorTimeoutRef s"
    by (auto simp: jsonBuffer_def onDidChangeModelContent_def Let_def)
  from debounceInv_cong [OF this] assms show ?thesis by simp
qed

lemma replaceText_inv:
  assumes "debounceInv s"
  shows "debounceInv (replaceText text s)"
proof (cases "modelText s = [] \<and> text = []")
  case True
  with assms show ?thesis by (simp add: replaceText_def)
next
  case False
  have "debounceInv (s\<lparr>modelText := text\<rparr>) = debounceInv s"
    by (rule debounceInv_cong) simp_all
  with assms have "debounceInv (onDidChangeModelContent (s\<lparr>modelText := text\<rparr>))"
    by (simp add: onContent_inv_any)
  with False show ?thesis by (auto simp: replaceText_def)
qed

lemma setEditorValue_inv:
  assumes "debounceInv s"
  shows "debounceInv (setEditorValue text s)"
proof (cases "mounted s")
  case False
  with assms show ?thesis by (simp add: setEditorValue_def)
next
  case True
  have "debounceInv (recordEdit s) = debounceInv s"
    by (rule debounceInv_cong) (simp_all add: recordEdit_fields)
  with assms have r: "debounceInv (recordEdit s)" by simp
  from replaceText_inv [OF r] True show ?thesis
    by (simp add: setEditorValue_def executeEdits_def)
qed

lemma setEditorValue_mounted: "mounted (setEditorValue text s) = mounted s"
  by (simp add: setEditorValue_def executeEdits_fields)

lemma editorValueValidate_frame:
  "timers (snd (editorValueValidate lib val s)) = timers s"
  "parseJsonErrorTimeoutRef (snd (editorValueValidate lib val s)) = parseJsonErrorTimeoutRef s"
  "mounted (snd (editorValueValidate lib val s)) = mounted s"
  by (simp_all add: editorValueValidate_def Let_def split: option.splits)

lemma highlightErrorLine_inv:
  assumes "debounceInv s"
  shows "debounceInv (snd (highlightErrorLine l s))"
  using assms
  by (auto simp: highlightErrorLine_def Let_def setTimeout_def debounceInv_def
      pendingValidations_def List.map_filter_def split: option.splits)

lemma highlightErrorLine_mounted: "mounted (snd (highlightErrorLine l s)) = mounted s"
  by (simp add: highlightErrorLine_def Let_def setTimeout_def split: option.splits)

lemma autoFix_inv:
  assumes "debounceInv s"
  shows "debounceInv (snd (autoFix lib s))"
proof -
  have "debounceInv (snd (autoFix lib s)) = debounceInv s
      \<or> (\<exists>r. debounceInv (snd (autoFix lib s)) = debounceInv (setEditorValue r s))"
    by (auto simp: autoFix_def Let_def toast_def intro!: debounceInv_cong
        split: option.splits)
  with assms setEditorValue_inv [OF assms] show ?thesis by auto
qed

lemma autoFix_mounted: "mounted (snd (autoFix lib s)) = mounted s"
  by (simp add: autoFix_def Let_def toast_def setEditorValue_mounted split: option.splits)

lemma goToErrorLine_inv:
  assumes "debounceInv s"
  shows "debounceInv (goToErrorLine s)"
proof -
  have a: "debounceInv (s\<lparr>jsonErrorDetailsModel := False\<rparr>)"
    using assms debounceInv_cong [of "s\<lparr>jsonErrorDetailsModel := False\<rparr>" s] by simp
  have t: "debounceInv (toast x s') = debounceInv s'" for x s'
    by (rule debounceInv_cong) (simp_all add: toast_def)
  show ?thesis
    using assms highlightErrorLine_inv [OF a]
    by (simp add: goToErrorLine_def Let_def t split: option.splits)
qed

lemma goToErrorLine_mounted: "mounted (goToErrorLine s) = mounted s"
  by (simp add: goToErrorLine_def Let_def toast_def highlightErrorLine_mounted
      split: option.splits)

lemma formatModel_inv:
  assumes "debounceInv s"
  shows "debounceInv (snd (formatModelByUnEscapeJson lib t s))"
  using assms setEditorValue_inv [OF assms]
  by (simp add: formatModelByUnEscapeJson_def Let_def split: sum.splits)

lemma formatModel_mounted: "mounted (snd (formatModelByUnEscapeJson lib t s)) = mounted s"
  by (simp add: formatModelByUnEscapeJson_def Let_def setEditorValue_mounted
      split: sum.splits)

lemma moreAction_inv:
  assumes "debounceInv s"
  shows "debounceInv (snd (moreAction lib k s))"
proof -
  have t: "debounceInv (toast x s') = debounceInv s'" for x s'
    by (rule debounceInv_cong) (simp_all add: toast_def)
  obtain r s1 where f: "formatModelByUnEscapeJson lib (modelText s) s = (r, s1)"
    by (cases "formatModelByUnEscapeJson lib (modelText s) s")
  with formatModel_inv [OF assms, of lib "modelText s"] have "debounceInv s1" by simp
  with assms setEditorValue_inv [OF assms] f show ?thesis
    by (cases k; cases r) (simp_all add: moreAction_def t)
qed

lemma moreAction_mounted: "mounted (snd (moreAction lib k s)) = mounted s"
proof -
  obtain r s1 where f: "formatModelByUnEscapeJson lib (modelText s) s = (r, s1)"
    by (cases "formatModelByUnEscapeJson lib (modelText s) s")
  with formatModel_mounted [of lib "modelText s" s] have "mounted s1 = mounted s" by simp
  with f show ?thesis
    by (cases k; cases r) (simp_all add: moreAction_def toast_def setEditorValue_mounted)
qed

lemma fieldSort_inv:
  assumes "debounceInv s"
  shows "debounceInv (snd (fieldSort lib type s))"
proof -
  let ?r = "snd (editorValueValidate lib (modelText s) s)"
  have "debounceInv ?r = debounceInv s"
    by (rule debounceInv_cong) (simp_all add: editorValueValidate_frame)
  with assms have r: "debounceInv ?r" by simp
  with assms setEditorValue_inv [OF r] show ?thesis
    by (simp add: fieldSort_def Let_def split: sum.splits)
qed

lemma fieldSort_mounted: "mounted (snd (fieldSort lib type s)) = mounted s"
  by (simp add: fieldSort_def Let_def editorValueValidate_frame setEditorValue_mounted
      split: sum.splits)

lemma clear_inv:
  assumes "debounceInv s"
  shows "debounceInv (snd (clear s))"
  using assms setEditorValue_inv [OF assms] by (simp add: clear_def)

lemma clear_mounted: "mounted (snd (clear s)) = mounted s"
  by (simp add: clear_def setEditorValue_mounted)

lemma validate_inv:
  assumes "debounceInv s"
  shows "debounceInv (snd (validate lib s))"
proof -
  have "debounceInv (snd (editorValueValidate lib (modelText s) s)) = debounceInv s"
    by (rule debounceInv_cong) (simp_all add: editorValueValidate_frame)
  with assms show ?thesis by (simp add: validate_def Let_def)
qed

lemma validate_mounted: "mounted (snd (validate lib s)) = mounted s"
  by (simp add: validate_def Let_def editorValueValidate_frame)

lemma step_inv_any:
  assumes "debounceInv s"
  shows "debounceInv (step lib s e)"
proof (cases e)
  case (Edit val)
  have "debounceInv ((recordEdit s)\<lparr>modelText := val\<rparr>) = debounceInv s"
    by (rule debounceInv_cong) (simp_all add: recordEdit_fields)
  with assms have "debounceInv (contentChange val s)"
    by (simp add: contentChange_def onContent_inv_any)
  with Edit assms show ?thesis by simp
next
  case UndoStop
  have "debounceInv (pushUndoStop s) = debounceInv s"
    by (rule debounceInv_cong) (simp_all add: pushUndoStop_def)
  with UndoStop assms show ?thesis by simp
next
  case (Advance t)
  with advance_inv [OF assms] show ?thesis by simp
qed

lemma step_mounted: "mounted (step lib s e) = mounted s"
  by (cases e)
    (simp_all add: contentChange_def pushUndoStop_def onDidChangeModelContent_frame
      recordEdit_fields advance_frame)

lemma advance_unmounted:
  assumes "timers s = []"
  shows "parseJsonError (advance lib t s) = parseJsonError s"
  using assms by (simp add: advance_def dueTimers_def)

lemma perform_inv:
  assumes "debounceInv s" and "errorInv s"
  shows "debounceInv (perform lib s a) \<and> errorInv (perform lib s a)"
proof (cases "mounted s")
  case True
  have "mounted (perform lib s a)"
    using True
    by (cases a)
      (simp_all add: initializeEditor_def step_mounted autoFix_mounted goToErrorLine_mounted
        moreAction_mounted fieldSort_mounted clear_mounted validate_mounted)
  moreover have "debounceInv (perform lib s a)"
    using assms(1) True
    by (cases a)
      (simp_all add: initializeEditor_def step_inv_any autoFix_inv goToErrorLine_inv
        moreAction_inv fieldSort_inv clear_inv validate_inv)
  ultimately show ?thesis by (simp add: errorInv_def)
next
  case False
  with assms(2) have e: "parseJsonError s = None" and t: "timers s = []"
    by (simp_all add: errorInv_def)
  show ?thesis
  proof (cases a)
    case (Mount l val language)
    have "debounceInv (initializeEditor l val language s) = debounceInv s"
      by (rule debounceInv_cong) (simp_all add: initializeEditor_def Let_def)
    with assms(1) Mount False show ?thesis
      by (simp add: errorInv_def initializeEditor_def Let_def)
  next
    case (Happen ev)
    show ?thesis
    proof (cases ev)
      case (Edit val)
      with Happen False assms show ?thesis by simp
    next
      case UndoStop
      with Happen False assms show ?thesis by simp
    next
      case (Advance u)
      with Happen False e t advance_inv [OF assms(1), of lib u] show ?thesis
        by (simp add: errorInv_def advance_frame advance_unmounted)
    qed
  next
    case AutoFix
    with False e t autoFix_inv [OF assms(1), of lib] show ?thesis
      by (simp add: errorInv_def autoFix_def getValueOrEmpty_def toast_def)
  next
    case GoToErrorLine
    with False e t goToErrorLine_inv [OF assms(1)] show ?thesis
      by (simp add: errorInv_def goToErrorLine_def toast_def)
  next
    case (MoreAction k)
    with False assms show ?thesis by (simp add: moreAction_def)
  next
    case (FieldSort type)
    with False assms show ?thesis by (simp add: fieldSort_def)
  next
    case Clear
    with False assms show ?thesis by (simp add: clear_def)
  next
    case Validate
    with False assms show ?thesis by (simp add: validate_def)
  qed
qed

lemma reach_inv: "debounceInv (reach lib as) \<and> errorInv (reach lib as)"
proof (induction as rule: rev_induct)
  case Nil
  show ?case
    by (simp add: reach_def unmounted_def debounceInv_def errorInv_def
        pendingValidations_def List.map_filter_def)
next
  case (snoc a as)
  then have "debounceInv (reach lib as)" and "errorInv (reach lib as)" by blast+
  from perform_inv [OF this] show ?case by (simp add: reach_def)
qed

end
